theory Spec2Isabelle
  imports Complex_Main "HOL-Library.Sublist" "HOL-Library.Multiset"
begin

section \<open>Data model (frontend/src/types/index.ts)\<close>

text \<open>
  The status of a machine is one of four string literals in the source; \<open>status_str\<close>
  gives the string that the \<open>===\<close> comparisons of the code see.
\<close>

datatype Status = Normal | Satisfactory | Alert | Unacceptable

fun status_str :: "Status \<Rightarrow> string" where
  "status_str Normal = ''Normal''"
| "status_str Satisfactory = ''Satisfactory''"
| "status_str Alert = ''Alert''"
| "status_str Unacceptable = ''Unacceptable''"

text \<open>The field \<open>_id\<close> of the source is \<open>m_id\<close> here.\<close>

record Machine =
  m_id :: string
  machineName :: string
  customer :: string
  area :: string
  subarea :: string
  machineType :: "string option"
  status :: Status
  ingestedDate :: "string option"

record StatusCounts =
  cnt_Normal :: int
  cnt_Satisfactory :: int
  cnt_Alert :: int
  cnt_Unacceptable :: int

record KPIStats =
  total_readings :: int
  kpi_status_counts :: StatusCounts

record HourlyTrend =
  hour :: int
  count :: int

record StatusTrend =
  date :: string
  status_counts :: StatusCounts

text \<open>
  \<open>DashboardState['searchFilters']\<close> has five string fields; the argument of
  \<open>searchMachines\<close> and the payload of \<open>SET_SEARCH_FILTERS\<close> are a \<open>Partial\<close> of
  it, where a field may be absent (\<open>None\<close>).
\<close>

record SearchFilters =
  sf_customer :: string
  sf_area :: string
  sf_subarea :: string
  sf_machineName :: string
  sf_status :: string

record PartialFilters =
  pf_customer :: "string option"
  pf_area :: "string option"
  pf_subarea :: "string option"
  pf_machineName :: "string option"
  pf_status :: "string option"

text \<open>A JavaScript \<open>Date\<close> is carried as its time value in milliseconds.\<close>

type_synonym jsDate = int

record DashboardState =
  selectedDate :: jsDate
  machines :: "Machine list"
  filteredMachines :: "Machine list"
  kpiStats :: "KPIStats option"
  statusTrends :: "StatusTrend list"
  hourlyTrends :: "HourlyTrend list"
  loading :: bool
  error :: "string option"
  searchFilters :: SearchFilters

section \<open>The reducer (frontend/src/context/DashboardContext.tsx)\<close>

datatype DashboardAction =
    SET_LOADING bool
  | SET_ERROR "string option"
  | SET_SELECTED_DATE jsDate
  | SET_MACHINES "Machine list"
  | SET_FILTERED_MACHINES "Machine list"
  | SET_KPI_STATS "KPIStats option"
  | SET_STATUS_TRENDS "StatusTrend list"
  | SET_HOURLY_TRENDS "HourlyTrend list"
  | SET_SEARCH_FILTERS PartialFilters
  | CLEAR_FILTERS
  | RESET_DASHBOARD

definition initialSearchFilters :: SearchFilters where
  "initialSearchFilters =
     \<lparr>sf_customer = '''', sf_area = '''', sf_subarea = '''', sf_machineName = '''',
      sf_status = ''''\<rparr>"

text \<open>\<open>initialState\<close> reads the clock (\<open>new Date()\<close>); the time read is the argument.\<close>

definition initialState :: "jsDate \<Rightarrow> DashboardState" where
  "initialState now =
     \<lparr>selectedDate = now, machines = [], filteredMachines = [], kpiStats = None,
      statusTrends = [], hourlyTrends = [], loading = False, error = None,
      searchFilters = initialSearchFilters\<rparr>"

text \<open>The object spread \<open>{ ...state.searchFilters, ...action.payload }\<close>.\<close>

definition spread :: "string \<Rightarrow> string option \<Rightarrow> string" where
  "spread old new = (case new of None \<Rightarrow> old | Some v \<Rightarrow> v)"

definition mergeFilters :: "SearchFilters \<Rightarrow> PartialFilters \<Rightarrow> SearchFilters" where
  "mergeFilters sf p =
     \<lparr>sf_customer = spread (sf_customer sf) (pf_customer p),
      sf_area = spread (sf_area sf) (pf_area p),
      sf_subarea = spread (sf_subarea sf) (pf_subarea p),
      sf_machineName = spread (sf_machineName sf) (pf_machineName p),
      sf_status = spread (sf_status sf) (pf_status p)\<rparr>"

text \<open>
  \<open>RESET_DASHBOARD\<close> returns the module constant \<open>initialState\<close>, whose date was read
  when the module was loaded: the reducer takes that time as \<open>t0\<close>. The \<open>default\<close>
  branch of the \<open>switch\<close> is not reached by an action of type \<open>DashboardAction\<close>.
\<close>

fun dashboardReducer :: "jsDate \<Rightarrow> DashboardState \<Rightarrow> DashboardAction \<Rightarrow> DashboardState" where
  "dashboardReducer t0 s (SET_LOADING b) = s\<lparr>loading := b\<rparr>"
| "dashboardReducer t0 s (SET_ERROR e) = s\<lparr>error := e, loading := False\<rparr>"
| "dashboardReducer t0 s (SET_SELECTED_DATE d) = s\<lparr>selectedDate := d\<rparr>"
| "dashboardReducer t0 s (SET_MACHINES ms) = s\<lparr>machines := ms, filteredMachines := ms\<rparr>"
| "dashboardReducer t0 s (SET_FILTERED_MACHINES ms) = s\<lparr>filteredMachines := ms\<rparr>"
| "dashboardReducer t0 s (SET_KPI_STATS k) = s\<lparr>kpiStats := k\<rparr>"
| "dashboardReducer t0 s (SET_STATUS_TRENDS ts) = s\<lparr>statusTrends := ts\<rparr>"
| "dashboardReducer t0 s (SET_HOURLY_TRENDS hs) = s\<lparr>hourlyTrends := hs\<rparr>"
| "dashboardReducer t0 s (SET_SEARCH_FILTERS p) =
     s\<lparr>searchFilters := mergeFilters (searchFilters s) p\<rparr>"
| "dashboardReducer t0 s CLEAR_FILTERS =
     s\<lparr>searchFilters := initialSearchFilters, filteredMachines := machines s\<rparr>"
| "dashboardReducer t0 s RESET_DASHBOARD = initialState t0"

text \<open>A run of \<open>dispatch\<close> calls applies the reducer to each action in turn.\<close>

definition dispatch_all :: "jsDate \<Rightarrow> DashboardState \<Rightarrow> DashboardAction list \<Rightarrow> DashboardState" where
  "dispatch_all t0 s acts = foldl (dashboardReducer t0) s acts"

section \<open>Strings\<close>

text \<open>
  Strings are lists of characters. \<open>str_includes\<close> is
  \<open>String.prototype.includes\<close>: the needle occurs as a contiguous run of the
  haystack, and the empty needle occurs in every string.
  \<open>String.prototype.toLowerCase\<close> is a built-in that folds every cased letter of
  Unicode; it is not defined here but is a parameter, \<open>toLowerCase\<close>, of every
  function that calls it, and what is proved holds for whatever it computes.
\<close>

fun str_includes :: "string \<Rightarrow> string \<Rightarrow> bool" where
  "str_includes [] needle = (needle = [])"
| "str_includes (c # cs) needle = (prefix needle (c # cs) \<or> str_includes cs needle)"

text \<open>\<open>!v\<close> for \<open>v\<close> a string or \<open>undefined\<close>: true when absent or empty.\<close>

fun falsy :: "string option \<Rightarrow> bool" where
  "falsy None = True"
| "falsy (Some v) = (v = [])"

section \<open>The action creators of the provider\<close>

text \<open>
  What a \<open>catch\<close> clause receives: an \<open>Error\<close> object with its message, or any other
  thrown value. \<open>failure_message\<close> is
  \<open>error instanceof Error ? error.message : fallback\<close>.
\<close>

datatype thrown = ErrorObj string | NonError

fun failure_message :: "string \<Rightarrow> thrown \<Rightarrow> string" where
  "failure_message fallback (ErrorObj msg) = msg"
| "failure_message fallback NonError = fallback"

text \<open>
  The fallible part of a \<open>try\<close> block that awaits the gateway ends in one of three
  ways: a statement before the request throws (\<open>Threw\<close>, the request is not issued),
  the awaited promise rejects (\<open>Rejected\<close>), or it fulfils with a value.
\<close>

datatype 'a attempt = Threw thrown | Rejected thrown | Fulfilled 'a

datatype GatewayCall =
  api_getAllMachines | api_getKPIs | api_getStatusTrends | api_getHourlyTrends
  | api_searchMachines

text \<open>
  An action creator is modelled by the trace of its effects in program order: the
  actions it dispatches and the gateway calls it issues. The request parameters (the
  month bounds that date-fns formats, the query string) are not part of the trace.
\<close>

datatype effect = Dispatch DashboardAction | Call GatewayCall

fun dispatched :: "effect list \<Rightarrow> DashboardAction list" where
  "dispatched [] = []"
| "dispatched (Dispatch a # es) = a # dispatched es"
| "dispatched (Call c # es) = dispatched es"

fun calls :: "effect list \<Rightarrow> GatewayCall list" where
  "calls [] = []"
| "calls (Dispatch a # es) = calls es"
| "calls (Call c # es) = c # calls es"

definition run :: "jsDate \<Rightarrow> DashboardState \<Rightarrow> effect list \<Rightarrow> DashboardState" where
  "run t0 s es = dispatch_all t0 s (dispatched es)"

text \<open>
  The snapshot in which the first gateway call of a trace is issued (the snapshot that
  is displayed while the request is pending); \<open>None\<close> when the trace issues no call.
\<close>

fun state_at_call :: "jsDate \<Rightarrow> DashboardState \<Rightarrow> effect list \<Rightarrow> DashboardState option" where
  "state_at_call t0 s [] = None"
| "state_at_call t0 s (Dispatch a # es) = state_at_call t0 (dashboardReducer t0 s a) es"
| "state_at_call t0 s (Call c # es) = Some s"

type_synonym load_payload = "Machine list \<times> KPIStats \<times> StatusTrend list \<times> HourlyTrend list"

text \<open>
  \<open>Promise.all\<close> over the four gateway promises, each given by how it settles
  (\<open>Inl\<close> a rejection, \<open>Inr\<close> a value): it fulfils with the four values when all
  fulfil, and otherwise rejects with the reason of whichever rejection is observed
  first. The order of settlement is not fixed by the program, so the result is the list
  of the outcomes that can be observed.
\<close>

fun rejection :: "thrown + 'a \<Rightarrow> thrown list" where
  "rejection (Inl e) = [e]"
| "rejection (Inr v) = []"

fun Promise_all4 ::
  "thrown + Machine list \<Rightarrow> thrown + KPIStats \<Rightarrow> thrown + StatusTrend list \<Rightarrow>
   thrown + HourlyTrend list \<Rightarrow> load_payload attempt list" where
  "Promise_all4 (Inr ms) (Inr k) (Inr st) (Inr ht) = [Fulfilled (ms, k, st, ht)]"
| "Promise_all4 r1 r2 r3 r4 =
     map Rejected (rejection r1 @ rejection r2 @ rejection r3 @ rejection r4)"

definition load_failed :: "thrown \<Rightarrow> effect list" where
  "load_failed e =
     [Dispatch (SET_ERROR (Some (failure_message ''Failed to load dashboard data'' e)))]"

definition load_calls :: "effect list" where
  "load_calls =
     [Call api_getAllMachines, Call api_getKPIs, Call api_getStatusTrends,
      Call api_getHourlyTrends]"

text \<open>
  \<open>loadDashboardData date\<close>, given how its \<open>try\<close> block ends. The date only enters
  the request parameters.
\<close>

fun loadDashboardData :: "jsDate \<Rightarrow> load_payload attempt \<Rightarrow> effect list" where
  "loadDashboardData d (Threw e) =
     [Dispatch (SET_LOADING True), Dispatch (SET_ERROR None)] @ load_failed e"
| "loadDashboardData d (Rejected e) =
     [Dispatch (SET_LOADING True), Dispatch (SET_ERROR None)] @ load_calls @ load_failed e"
| "loadDashboardData d (Fulfilled (ms, k, st, ht)) =
     [Dispatch (SET_LOADING True), Dispatch (SET_ERROR None)] @ load_calls @
     [Dispatch (SET_MACHINES ms), Dispatch (SET_KPI_STATS (Some k)),
      Dispatch (SET_STATUS_TRENDS st), Dispatch (SET_HOURLY_TRENDS ht),
      Dispatch (SET_LOADING False)]"

text \<open>The predicate of the fallback \<open>state.machines.filter(...)\<close>.\<close>

definition matchesSearch :: "(string \<Rightarrow> string) \<Rightarrow> PartialFilters \<Rightarrow> Machine \<Rightarrow> bool" where
  "matchesSearch toLowerCase filters machine =
     (case pf_machineName filters of
        None \<Rightarrow> True
      | Some q \<Rightarrow>
          q = [] \<or> str_includes (toLowerCase (machineName machine)) (toLowerCase q) \<or>
          str_includes (toLowerCase (m_id machine)) (toLowerCase q))"

definition matchesField :: "string option \<Rightarrow> string \<Rightarrow> bool" where
  "matchesField f v = (falsy f \<or> Some v = f)"

definition matchesAll :: "(string \<Rightarrow> string) \<Rightarrow> PartialFilters \<Rightarrow> Machine \<Rightarrow> bool" where
  "matchesAll toLowerCase filters machine =
     (matchesSearch toLowerCase filters machine \<and>
      matchesField (pf_customer filters) (customer machine) \<and>
      matchesField (pf_area filters) (area machine) \<and>
      matchesField (pf_subarea filters) (subarea machine) \<and>
      matchesField (pf_status filters) (status_str (status machine)))"

definition clientFilter ::
  "(string \<Rightarrow> string) \<Rightarrow> PartialFilters \<Rightarrow> Machine list \<Rightarrow> Machine list" where
  "clientFilter toLowerCase filters ms = filter (matchesAll toLowerCase filters) ms"

text \<open>
  \<open>searchMachines filters\<close>, given how the inner \<open>try\<close> block ends. \<open>closure\<close> is the
  snapshot that the function closed over (\<open>state\<close> of the render that created it): the
  fallback filters \<open>closure\<close>'s machines. The outer \<open>catch\<close> is not reached: nothing
  in the fallback throws on records of type \<open>Machine\<close>.
\<close>

fun searchMachines ::
  "(string \<Rightarrow> string) \<Rightarrow> DashboardState \<Rightarrow> PartialFilters \<Rightarrow> Machine list attempt \<Rightarrow>
   effect list" where
  "searchMachines toLowerCase closure filters (Fulfilled found) =
     [Dispatch (SET_LOADING True), Dispatch (SET_SEARCH_FILTERS filters),
      Call api_searchMachines, Dispatch (SET_FILTERED_MACHINES found),
      Dispatch (SET_LOADING False)]"
| "searchMachines toLowerCase closure filters (Rejected e) =
     [Dispatch (SET_LOADING True), Dispatch (SET_SEARCH_FILTERS filters),
      Call api_searchMachines,
      Dispatch (SET_FILTERED_MACHINES (clientFilter toLowerCase filters (machines closure))),
      Dispatch (SET_LOADING False)]"
| "searchMachines toLowerCase closure filters (Threw e) =
     [Dispatch (SET_LOADING True), Dispatch (SET_SEARCH_FILTERS filters),
      Dispatch (SET_FILTERED_MACHINES (clientFilter toLowerCase filters (machines closure))),
      Dispatch (SET_LOADING False)]"

definition clearFilters :: "effect list" where
  "clearFilters = [Dispatch CLEAR_FILTERS]"

definition setSelectedDate :: "jsDate \<Rightarrow> load_payload attempt \<Rightarrow> effect list" where
  "setSelectedDate d out = Dispatch (SET_SELECTED_DATE d) # loadDashboardData d out"

section \<open>Sequences of exposed actions\<close>

text \<open>
  The presentation layer changes the snapshot only through the four action entry
  points. An \<open>event\<close> is one call of an entry point together with how its gateway
  request will end. \<open>trace_of\<close> is the trace of the call; \<open>searchMachines\<close> closes over
  the snapshot in which it is called.
\<close>

datatype event =
    LoadDashboardData jsDate "load_payload attempt"
  | SearchMachines PartialFilters "Machine list attempt"
  | ClearFilters
  | SetSelectedDate jsDate "load_payload attempt"

fun trace_of :: "(string \<Rightarrow> string) \<Rightarrow> DashboardState \<Rightarrow> event \<Rightarrow> effect list" where
  "trace_of toLowerCase closure (LoadDashboardData d out) = loadDashboardData d out"
| "trace_of toLowerCase closure (SearchMachines filters out) =
     searchMachines toLowerCase closure filters out"
| "trace_of toLowerCase closure ClearFilters = clearFilters"
| "trace_of toLowerCase closure (SetSelectedDate d out) = setSelectedDate d out"

text \<open>
  An \<open>async\<close> function runs at once up to the \<open>await\<close> of the requests it has issued,
  and the rest of it runs when they settle; meanwhile other calls and other
  continuations run. \<open>before_await\<close> is the part of a trace up to its last gateway call,
  \<open>after_await\<close> the part after it; a trace that issues no call runs at once as a whole.
\<close>

fun before_await :: "effect list \<Rightarrow> effect list" where
  "before_await [] = []"
| "before_await (Dispatch a # es) = Dispatch a # before_await es"
| "before_await (Call c # es) = Call c # (if calls es = [] then [] else before_await es)"

fun after_await :: "effect list \<Rightarrow> effect list" where
  "after_await [] = []"
| "after_await (Dispatch a # es) = after_await es"
| "after_await (Call c # es) = (if calls es = [] then es else after_await es)"

text \<open>
  The snapshot together with the calls whose requests are pending, each with the
  snapshot it closed over, oldest first.
\<close>

record config =
  snapshot :: DashboardState
  in_flight :: "(DashboardState \<times> event) list"

text \<open>
  A step either begins a call, which runs up to its \<open>await\<close> and is then in flight, or
  settles the \<open>i\<close>-th call in flight, which runs its continuation on the snapshot of
  that moment. Calls in flight settle in any order.
\<close>

datatype step = Begin event | Settle nat

fun do_step :: "(string \<Rightarrow> string) \<Rightarrow> jsDate \<Rightarrow> config \<Rightarrow> step \<Rightarrow> config" where
  "do_step toLowerCase t0 c (Begin ev) =
     \<lparr>snapshot = run t0 (snapshot c) (before_await (trace_of toLowerCase (snapshot c) ev)),
      in_flight =
        (if calls (trace_of toLowerCase (snapshot c) ev) = [] then in_flight c
         else in_flight c @ [(snapshot c, ev)])\<rparr>"
| "do_step toLowerCase t0 c (Settle i) =
     (if i < length (in_flight c)
      then \<lparr>snapshot =
              run t0 (snapshot c)
                (after_await
                   (trace_of toLowerCase (fst (in_flight c ! i)) (snd (in_flight c ! i)))),
            in_flight = take i (in_flight c) @ drop (Suc i) (in_flight c)\<rparr>
      else c)"

definition mounted :: "jsDate \<Rightarrow> config" where
  "mounted t0 = \<lparr>snapshot = initialState t0, in_flight = []\<rparr>"

definition reached :: "(string \<Rightarrow> string) \<Rightarrow> jsDate \<Rightarrow> step list \<Rightarrow> config" where
  "reached toLowerCase t0 steps = foldl (do_step toLowerCase t0) (mounted t0) steps"

definition ids :: "Machine list \<Rightarrow> string set" where
  "ids ms = set (map m_id ms)"

definition filtered_within :: "DashboardState \<Rightarrow> bool" where
  "filtered_within s = (ids (filteredMachines s) \<subseteq> ids (machines s))"

text \<open>
  \<open>stores_within s p\<close>, for a call in flight \<open>p\<close> that settles in the snapshot \<open>s\<close>: a
  server-side search that succeeded returned only records whose \<open>_id\<close> occurs in the
  machines of \<open>s\<close>; a search that was rejected, and falls back to filtering the machines
  of the snapshot it was called in, finds each of those machines, by \<open>_id\<close>, still among
  the machines of \<open>s\<close>. \<open>settles_within\<close> says so of every step of a run.
\<close>

fun stores_within :: "DashboardState \<Rightarrow> DashboardState \<times> event \<Rightarrow> bool" where
  "stores_within s (closure, SearchMachines filters (Fulfilled found)) =
     (ids found \<subseteq> ids (machines s))"
| "stores_within s (closure, SearchMachines filters (Rejected e)) =
     (ids (machines closure) \<subseteq> ids (machines s))"
| "stores_within s (closure, ev) = True"

fun step_within :: "config \<Rightarrow> step \<Rightarrow> bool" where
  "step_within c (Begin ev) = True"
| "step_within c (Settle i) =
     (if i < length (in_flight c) then stores_within (snapshot c) (in_flight c ! i) else True)"

fun settles_within :: "(string \<Rightarrow> string) \<Rightarrow> jsDate \<Rightarrow> config \<Rightarrow> step list \<Rightarrow> bool" where
  "settles_within toLowerCase t0 c [] = True"
| "settles_within toLowerCase t0 c (st # sts) =
     (step_within c st \<and> settles_within toLowerCase t0 (do_step toLowerCase t0 c st) sts)"

section \<open>The fallback filter as the specification words it\<close>

text \<open>
  \<open>ci_substring toLowerCase q s\<close>, the case-insensitive substring match: with the case
  of both folded, \<open>q\<close> is a contiguous part of \<open>s\<close>. \<open>spec_matches\<close>: every
  constrained (present and non-empty) field of the criteria matches the record.
\<close>

definition ci_substring :: "(string \<Rightarrow> string) \<Rightarrow> string \<Rightarrow> string \<Rightarrow> bool" where
  "ci_substring toLowerCase q s = (\<exists>pre post. toLowerCase s = pre @ toLowerCase q @ post)"

definition spec_matches :: "(string \<Rightarrow> string) \<Rightarrow> PartialFilters \<Rightarrow> Machine \<Rightarrow> bool" where
  "spec_matches toLowerCase filters machine =
     ((\<forall>q. pf_machineName filters = Some q \<and> q \<noteq> [] \<longrightarrow>
          ci_substring toLowerCase q (machineName machine) \<or>
          ci_substring toLowerCase q (m_id machine)) \<and>
      (\<forall>v. pf_customer filters = Some v \<and> v \<noteq> [] \<longrightarrow> customer machine = v) \<and>
      (\<forall>v. pf_area filters = Some v \<and> v \<noteq> [] \<longrightarrow> area machine = v) \<and>
      (\<forall>v. pf_subarea filters = Some v \<and> v \<noteq> [] \<longrightarrow> subarea machine = v) \<and>
      (\<forall>v. pf_status filters = Some v \<and> v \<noteq> [] \<longrightarrow>
          status_str (status machine) = v))"

section \<open>The debounced search of SearchFilters (components/Dashboard/KPICards.tsx)\<close>

text \<open>
  The component keeps \<open>searchTerm\<close> and \<open>localFilters\<close>. Its effect starts a timer of
  300 ms whose callback calls \<open>searchMachines\<close> when the term or some filter value is
  non-empty; the cleanup of the effect clears the timer. \<open>anyFilter\<close> is
  \<open>Object.values(localFilters).some(value => value)\<close>, \<open>searchArg\<close> the object
  \<open>{ ...localFilters, machineName: searchTerm }\<close>, and \<open>timer_callback\<close> the list of
  \<open>searchMachines\<close> calls that the callback makes.
\<close>

definition anyFilter :: "SearchFilters \<Rightarrow> bool" where
  "anyFilter lf =
     (sf_customer lf \<noteq> [] \<or> sf_area lf \<noteq> [] \<or> sf_subarea lf \<noteq> [] \<or>
      sf_machineName lf \<noteq> [] \<or> sf_status lf \<noteq> [])"

definition searchArg :: "string \<Rightarrow> SearchFilters \<Rightarrow> PartialFilters" where
  "searchArg searchTerm lf =
     \<lparr>pf_customer = Some (sf_customer lf), pf_area = Some (sf_area lf),
      pf_subarea = Some (sf_subarea lf), pf_machineName = Some searchTerm,
      pf_status = Some (sf_status lf)\<rparr>"

definition timer_callback :: "string \<Rightarrow> SearchFilters \<Rightarrow> PartialFilters list" where
  "timer_callback searchTerm lf =
     (if searchTerm \<noteq> [] \<or> anyFilter lf then [searchArg searchTerm lf] else [])"

text \<open>
  Time is counted in milliseconds. A pending timer holds the time at which it is due and
  the values its callback closed over. The state of the component: the current term and
  filters, the pending timer, and the arguments of the \<open>searchMachines\<close> calls made so
  far, oldest first.
\<close>

record timer =
  due :: nat
  t_searchTerm :: string
  t_localFilters :: SearchFilters

record debounce =
  searchTerm_now :: string
  localFilters_now :: SearchFilters
  pending :: "timer option"
  searches :: "PartialFilters list"

text \<open>
  The effect (its dependencies are \<open>searchTerm\<close>, \<open>localFilters\<close> and \<open>actions\<close>) runs
  at time \<open>t\<close>: the cleanup of the previous run clears its timer, and a timer of 300 ms
  is started with the current values.
\<close>

definition run_effect :: "nat \<Rightarrow> debounce \<Rightarrow> debounce" where
  "run_effect t db =
     db\<lparr>pending :=
          Some \<lparr>due = t + 300, t_searchTerm = searchTerm_now db,
                t_localFilters = localFilters_now db\<rparr>\<rparr>"

text \<open>
  The timer \<open>tm\<close> fires. When its callback calls \<open>searchMachines\<close>, that call dispatches
  \<open>SET_LOADING\<close> and \<open>SET_SEARCH_FILTERS\<close> at once: the provider renders again and
  builds a new \<open>actions\<close> object, the component copies the merged
  \<open>state.searchFilters\<close> into \<open>localFilters\<close>, and the effect, whose dependencies have
  changed, runs again. When the callback makes no call nothing is dispatched, and no
  timer is left.
\<close>

definition fire :: "timer \<Rightarrow> debounce \<Rightarrow> debounce" where
  "fire tm db =
     (if timer_callback (t_searchTerm tm) (t_localFilters tm) = [] then db\<lparr>pending := None\<rparr>
      else
        run_effect (due tm)
          (db\<lparr>searches := searches db @ timer_callback (t_searchTerm tm) (t_localFilters tm),
              localFilters_now :=
                mergeFilters (localFilters_now db)
                  (searchArg (t_searchTerm tm) (t_localFilters tm))\<rparr>))"

text \<open>Time passes until \<open>now\<close>: as long as the pending timer is due, it fires.\<close>

function elapse :: "nat \<Rightarrow> debounce \<Rightarrow> debounce" where
  "elapse now db =
     (case pending db of
        None \<Rightarrow> db
      | Some tm \<Rightarrow> if due tm \<le> now then elapse now (fire tm db) else db)"
  by pat_completeness auto
termination
proof (relation "measure (\<lambda>(now, db). case pending db of None \<Rightarrow> 0 | Some tm \<Rightarrow> Suc now - due tm)")
  show "wf (measure (\<lambda>(now, db). case pending db of None \<Rightarrow> 0 | Some tm \<Rightarrow> Suc now - due tm))"
    by simp
next
  fix now :: nat and db :: debounce and tm :: timer
  assume "pending db = Some tm" and "due tm \<le> now"
  then show "((now, fire tm db), (now, db))
      \<in> measure (\<lambda>(now, db). case pending db of None \<Rightarrow> 0 | Some tm \<Rightarrow> Suc now - due tm)"
    by (auto simp: fire_def run_effect_def)
qed

declare elapse.simps [simp del]

text \<open>
  What happens to the component: an edit at time \<open>t\<close> sets the term and the filters, or
  the provider renders again at time \<open>t\<close> for another reason (a request has settled, a
  load was started) and hands the component a new \<open>actions\<close> object. Either way the
  effect runs again.
\<close>

datatype ui_event = Edit nat string SearchFilters | Render nat

fun on_event :: "debounce \<Rightarrow> ui_event \<Rightarrow> debounce" where
  "on_event db (Edit t searchTerm lf) =
     run_effect t ((elapse t db)\<lparr>searchTerm_now := searchTerm, localFilters_now := lf\<rparr>)"
| "on_event db (Render t) = run_effect t (elapse t db)"

text \<open>
  The component mounts at time 0 with an empty term and the filters of the initial
  snapshot, and its effect runs. \<open>debounced events until\<close> are the search calls made
  by time \<open>until\<close>.
\<close>

definition mounted_filters :: debounce where
  "mounted_filters =
     run_effect 0
       \<lparr>searchTerm_now = [], localFilters_now = initialSearchFilters, pending = None,
        searches = []\<rparr>"

definition debounced :: "ui_event list \<Rightarrow> nat \<Rightarrow> PartialFilters list" where
  "debounced events until = searches (elapse until (foldl on_event mounted_filters events))"

section \<open>Chart data\<close>

text \<open>
  The object handed to the chart component: the labels of the x axis and one dataset
  per series. Of a dataset the label and the data are kept; its colours and line
  settings are constants of the source that no property here depends on.
\<close>

record dataset =
  ds_label :: string
  ds_data :: "int list"

record ChartData =
  labels :: "string list"
  datasets :: "dataset list"

text \<open>
  \<open>Number_toString\<close> is what a template literal makes of an integer number: its
  decimal digits, with a minus sign when negative.
\<close>

definition digit_char :: "nat \<Rightarrow> char" where
  "digit_char d = char_of (48 + d)"

fun nat_digits :: "nat \<Rightarrow> string" where
  "nat_digits n = (if n < 10 then [digit_char n] else nat_digits (n div 10) @ [digit_char (n mod 10)])"

declare nat_digits.simps [simp del]

definition Number_toString :: "int \<Rightarrow> string" where
  "Number_toString i = (if i < 0 then CHR ''-'' # nat_digits (nat (- i)) else nat_digits (nat i))"

subsection \<open>HourlyTrendChart (components/Dashboard/KPICards.tsx)\<close>

datatype viewMode = machines_mode | components_mode

definition hour_label :: "int \<Rightarrow> string" where
  "hour_label h =
     (if h < 10 then ''0'' @ Number_toString h @ '':00'' else Number_toString h @ '':00'')"

text \<open>
  \<open>Array.prototype.sort\<close> is stable, and so is \<open>sort_key\<close>; the comparator
  \<open>a.hour - b.hour\<close> orders by \<open>hour\<close>.
\<close>

definition hourlyChartData :: "viewMode \<Rightarrow> HourlyTrend list \<Rightarrow> ChartData" where
  "hourlyChartData mode trends =
     (if trends = [] then \<lparr>labels = [], datasets = []\<rparr>
      else
        let sortedTrends = sort_key hour trends
        in \<lparr>labels = map (\<lambda>trend. hour_label (hour trend)) sortedTrends,
            datasets =
              [\<lparr>ds_label =
                  (if mode = machines_mode then ''Machine Readings'' else ''Component Readings''),
                ds_data = map count sortedTrends\<rparr>]\<rparr>)"

text \<open>
  The label as the specification words it: the hour as two decimal digits, zero-padded,
  followed by \<open>:00\<close>.
\<close>

definition padded_hour :: "int \<Rightarrow> string" where
  "padded_hour h = [digit_char (nat h div 10), digit_char (nat h mod 10)] @ '':00''"

subsection \<open>CustomerTrendChart (components/Charts/CustomerTrendChart.tsx)\<close>

text \<open>
  \<open>[...new Set(xs)]\<close>: the distinct elements of \<open>xs\<close> in the order of their first
  occurrence.
\<close>

definition Set_of :: "'a list \<Rightarrow> 'a list" where
  "Set_of xs = foldl (\<lambda>acc x. if x \<in> set acc then acc else acc @ [x]) [] xs"

text \<open>
  The share of a count is computed in double-precision arithmetic,
  \<open>Math.round((count / customers.length) * (index + 1))\<close>. The three operations are
  parameters of the model, over a type \<open>'n\<close> of numbers: \<open>fdiv\<close> the division of a
  count by the number of customers, \<open>fmul\<close> the product with \<open>index + 1\<close>, and
  \<open>Math_round\<close>. The counts and the rounded shares are integers, and are added as such.
\<close>

record 'n number_ops =
  fdiv :: "int \<Rightarrow> nat \<Rightarrow> 'n"
  fmul :: "'n \<Rightarrow> nat \<Rightarrow> 'n"
  Math_round :: "'n \<Rightarrow> int"

definition share :: "'n number_ops \<Rightarrow> nat \<Rightarrow> nat \<Rightarrow> int \<Rightarrow> int" where
  "share ops n index c = Math_round ops (fmul ops (fdiv ops c n) (index + 1))"

definition zeroCounts :: StatusCounts where
  "zeroCounts = \<lparr>cnt_Normal = 0, cnt_Satisfactory = 0, cnt_Alert = 0, cnt_Unacceptable = 0\<rparr>"

text \<open>
  The loop over \<open>Object.entries(trend.status_counts)\<close>:
  \<open>customerTrend[status] += share\<close> for each of the four statuses.
\<close>

definition add_shares :: "'n number_ops \<Rightarrow> nat \<Rightarrow> nat \<Rightarrow> StatusCounts \<Rightarrow> StatusCounts \<Rightarrow> StatusCounts" where
  "add_shares ops n index trend_counts customerTrend =
     \<lparr>cnt_Normal = cnt_Normal customerTrend + share ops n index (cnt_Normal trend_counts),
      cnt_Satisfactory =
        cnt_Satisfactory customerTrend + share ops n index (cnt_Satisfactory trend_counts),
      cnt_Alert = cnt_Alert customerTrend + share ops n index (cnt_Alert trend_counts),
      cnt_Unacceptable =
        cnt_Unacceptable customerTrend + share ops n index (cnt_Unacceptable trend_counts)\<rparr>"

text \<open>\<open>Object.values(trend).reduce((sum, count) => sum + count, 0)\<close>.\<close>

definition total :: "StatusCounts \<Rightarrow> int" where
  "total c = cnt_Normal c + cnt_Satisfactory c + cnt_Alert c + cnt_Unacceptable c"

text \<open>
  What the computation of the chart can throw: the exception of date-fns for a trend
  whose date does not format, or the \<open>TypeError\<close> of a call on \<open>undefined\<close> where the
  source asserts with \<open>!\<close> that \<open>customerData.get(customer)\<close> is defined.
\<close>

datatype chart_error = FormatThrew thrown | UndefinedCustomer

type_synonym customerData = "string \<rightharpoonup> (string \<rightharpoonup> StatusCounts)"

text \<open>
  \<open>format(parseISO(trend.date), 'MMM dd')\<close> is the parameter \<open>date_label\<close>; it
  returns the label or what it throws. \<open>format_trends\<close> pairs every trend with its
  label, and fails with the first trend whose date does not format.
\<close>

fun format_trends ::
  "(string \<Rightarrow> thrown + string) \<Rightarrow> StatusTrend list \<Rightarrow> thrown + (string \<times> StatusCounts) list" where
  "format_trends date_label [] = Inr []"
| "format_trends date_label (t # ts) =
     (case date_label (date t) of
        Inl e \<Rightarrow> Inl e
      | Inr l \<Rightarrow>
          (case format_trends date_label ts of
             Inl e \<Rightarrow> Inl e
           | Inr ls \<Rightarrow> Inr ((l, status_counts t) # ls)))"

text \<open>\<open>customers.forEach(customer => customerData.set(customer, new Map()))\<close>.\<close>

definition init_customerData :: "string list \<Rightarrow> customerData" where
  "init_customerData customers = foldl (\<lambda>cd c. cd(c \<mapsto> Map.empty)) Map.empty customers"

text \<open>The body of \<open>customers.forEach((customer, index) => ...)\<close> for one trend.\<close>

definition visit_customer ::
  "'n number_ops \<Rightarrow> nat \<Rightarrow> string \<Rightarrow> StatusCounts \<Rightarrow> customerData \<Rightarrow> nat \<times> string \<Rightarrow>
   customerData option" where
  "visit_customer ops n d trend_counts cd ic =
     (case cd (snd ic) of
        None \<Rightarrow> None
      | Some inner \<Rightarrow>
          let customerTrend = (case inner d of None \<Rightarrow> zeroCounts | Some c \<Rightarrow> c)
          in Some (cd(snd ic \<mapsto> inner(d \<mapsto> add_shares ops n (fst ic) trend_counts customerTrend))))"

fun visit_customers ::
  "'n number_ops \<Rightarrow> nat \<Rightarrow> string \<Rightarrow> StatusCounts \<Rightarrow> customerData \<Rightarrow> (nat \<times> string) list \<Rightarrow>
   customerData option" where
  "visit_customers ops n d trend_counts cd [] = Some cd"
| "visit_customers ops n d trend_counts cd (ic # ics) =
     (case visit_customer ops n d trend_counts cd ic of
        None \<Rightarrow> None
      | Some cd' \<Rightarrow> visit_customers ops n d trend_counts cd' ics)"

text \<open>\<open>state.statusTrends.forEach(trend => ...)\<close>, over the trends with their labels.\<close>

fun visit_trends ::
  "'n number_ops \<Rightarrow> (nat \<times> string) list \<Rightarrow> nat \<Rightarrow> customerData \<Rightarrow>
   (string \<times> StatusCounts) list \<Rightarrow> customerData option" where
  "visit_trends ops ics n cd [] = Some cd"
| "visit_trends ops ics n cd (e # es) =
     (case visit_customers ops n (fst e) (snd e) cd ics of
        None \<Rightarrow> None
      | Some cd' \<Rightarrow> visit_trends ops ics n cd' es)"

text \<open>One dataset: \<open>customers.map((customer, index) => ...)\<close>.\<close>

definition customer_dataset :: "customerData \<Rightarrow> string list \<Rightarrow> nat \<times> string \<Rightarrow> dataset option" where
  "customer_dataset cd allDates ic =
     (case cd (snd ic) of
        None \<Rightarrow> None
      | Some customerTrends \<Rightarrow>
          Some \<lparr>ds_label = snd ic,
                ds_data =
                  map (\<lambda>d. case customerTrends d of None \<Rightarrow> 0 | Some trend \<Rightarrow> total trend)
                    allDates\<rparr>)"

fun all_defined :: "'a option list \<Rightarrow> 'a list option" where
  "all_defined [] = Some []"
| "all_defined (None # xs) = None"
| "all_defined (Some x # xs) = (case all_defined xs of None \<Rightarrow> None | Some ys \<Rightarrow> Some (x # ys))"

text \<open>
  \<open>chartData\<close> of the component. \<open>label_time\<close> is \<open>new Date(label).getTime()\<close>, the
  key by which the labels are sorted. The values \<open>totalForDate\<close> and \<open>customerShare\<close>
  of the source are computed and never used.
\<close>

definition customerChartData ::
  "'n number_ops \<Rightarrow> (string \<Rightarrow> thrown + string) \<Rightarrow> (string \<Rightarrow> int) \<Rightarrow> Machine list \<Rightarrow>
   StatusTrend list \<Rightarrow> chart_error + ChartData" where
  "customerChartData ops date_label label_time ms trends =
     (if trends = [] then Inr \<lparr>labels = [], datasets = []\<rparr>
      else
        let customers = Set_of (map customer ms);
            indexed = enumerate 0 customers
        in case format_trends date_label trends of
             Inl e \<Rightarrow> Inl (FormatThrew e)
           | Inr entries \<Rightarrow>
               (case visit_trends ops indexed (length customers) (init_customerData customers)
                       entries of
                  None \<Rightarrow> Inl UndefinedCustomer
                | Some customerData \<Rightarrow>
                    let allDates = sort_key label_time (Set_of (map fst entries))
                    in case all_defined (map (customer_dataset customerData allDates) indexed) of
                         None \<Rightarrow> Inl UndefinedCustomer
                       | Some ds \<Rightarrow> Inr \<lparr>labels = allDates, datasets = ds\<rparr>))"

text \<open>
  The value of a customer for a date as the specification words it: each status count
  of the date is divided by the number of customers, weighted by the ordinal index of
  the customer, rounded, and the four results are added.
\<close>

definition spec_customer_value :: "'n number_ops \<Rightarrow> nat \<Rightarrow> nat \<Rightarrow> StatusCounts \<Rightarrow> int" where
  "spec_customer_value ops n i c =
     Math_round ops (fmul ops (fdiv ops (cnt_Normal c) n) (i + 1)) +
     Math_round ops (fmul ops (fdiv ops (cnt_Satisfactory c) n) (i + 1)) +
     Math_round ops (fmul ops (fdiv ops (cnt_Alert c) n) (i + 1)) +
     Math_round ops (fmul ops (fdiv ops (cnt_Unacceptable c) n) (i + 1))"

text \<open>
  For the proof: the counts that the loops have accumulated for the customer with index
  \<open>i\<close> under the label \<open>d\<close> once the entries are processed, the inner map of that
  customer, and the invariant of the outer loop.
\<close>

definition shares ::
  "'n number_ops \<Rightarrow> nat \<Rightarrow> nat \<Rightarrow> (string \<times> StatusCounts) list \<Rightarrow> string \<Rightarrow> StatusCounts" where
  "shares ops n i entries d =
     foldl (\<lambda>acc c. add_shares ops n i c acc) zeroCounts
       (map snd (filter (\<lambda>e. fst e = d) entries))"

definition trends_of ::
  "'n number_ops \<Rightarrow> nat \<Rightarrow> nat \<Rightarrow> (string \<times> StatusCounts) list \<Rightarrow> string \<rightharpoonup> StatusCounts" where
  "trends_of ops n i entries d =
     (if d \<in> fst ` set entries then Some (shares ops n i entries d) else None)"

definition customerData_inv ::
  "'n number_ops \<Rightarrow> string list \<Rightarrow> (string \<times> StatusCounts) list \<Rightarrow> customerData \<Rightarrow> bool" where
  "customerData_inv ops cs entries cd =
     (\<forall>i < length cs. cd (cs ! i) = Some (trends_of ops (length cs) i entries))"


section \<open>Example data\<close>

definition pump :: Machine where
  "pump =
     \<lparr>m_id = ''m-1'', machineName = ''PUMP-01'', customer = ''Acme'', area = ''North'',
      subarea = ''Line 1'', machineType = None, status = Alert, ingestedDate = None\<rparr>"

definition fan :: Machine where
  "fan =
     \<lparr>m_id = ''m-2'', machineName = ''Fan-7'', customer = ''Zeta'', area = ''North'',
      subarea = ''Line 2'', machineType = None, status = Normal, ingestedDate = None\<rparr>"

definition by_name :: "string \<Rightarrow> PartialFilters" where
  "by_name q =
     \<lparr>pf_customer = None, pf_area = None, pf_subarea = None, pf_machineName = Some q,
      pf_status = None\<rparr>"

definition no_kpis :: KPIStats where
  "no_kpis =
     \<lparr>total_readings = 0,
      kpi_status_counts =
        \<lparr>cnt_Normal = 0, cnt_Satisfactory = 0, cnt_Alert = 0, cnt_Unacceptable = 0\<rparr>\<rparr>"

text \<open>A snapshot that shows two machines, filtered down to one, with a search running.\<close>

definition busy :: DashboardState where
  "busy =
     \<lparr>selectedDate = 0, machines = [fan, pump], filteredMachines = [pump],
      kpiStats = Some no_kpis, statusTrends = [], hourlyTrends = [\<lparr>hour = 5, count = 3\<rparr>],
      loading = True, error = Some ''stale'',
      searchFilters = initialSearchFilters\<lparr>sf_machineName := ''pump''\<rparr>\<rparr>"

text \<open>
  An instance of \<open>toLowerCase\<close> for the examples: it folds the letters \<open>A\<close> to \<open>Z\<close>
  and leaves every other character as it is, as \<open>String.prototype.toLowerCase\<close>
  does on strings of ASCII characters.
\<close>

definition ascii_char_toLowerCase :: "char \<Rightarrow> char" where
  "ascii_char_toLowerCase c =
     (let n = (of_char c :: nat) in if 65 \<le> n \<and> n \<le> 90 then char_of (n + 32) else c)"

definition ascii_toLowerCase :: "string \<Rightarrow> string" where
  "ascii_toLowerCase s = map ascii_char_toLowerCase s"

text \<open>
  Numbers as rationals, with exact division and product and rounding to the nearest
  integer, halves upwards; two status trends, given out of order, with the labels and
  the sort key they have.
\<close>

definition exact_ops :: "rat number_ops" where
  "exact_ops =
     \<lparr>fdiv = (\<lambda>c n. of_int c / of_nat n), fmul = (\<lambda>x k. x * of_nat k),
      Math_round = (\<lambda>x. \<lfloor>x + 1 / 2\<rfloor>)\<rparr>"

definition jan03 :: StatusTrend where
  "jan03 =
     \<lparr>date = ''2025-01-03'',
      status_counts =
        \<lparr>cnt_Normal = 4, cnt_Satisfactory = 2, cnt_Alert = 0, cnt_Unacceptable = 2\<rparr>\<rparr>"

definition jan02 :: StatusTrend where
  "jan02 =
     \<lparr>date = ''2025-01-02'',
      status_counts =
        \<lparr>cnt_Normal = 2, cnt_Satisfactory = 0, cnt_Alert = 1, cnt_Unacceptable = 0\<rparr>\<rparr>"

definition january_label :: "string \<Rightarrow> string" where
  "january_label s = ''Jan '' @ drop 8 s"

definition format_january :: "string \<Rightarrow> thrown + string" where
  "format_january s =
     (if take 8 s = ''2025-01-'' \<and> length s = 10 then Inr (january_label s)
      else Inl (ErrorObj ''Invalid time value''))"

definition january_time :: "string \<Rightarrow> int" where
  "january_time l = (if l = ''Jan 02'' then 2 else if l = ''Jan 03'' then 3 else 0)"

section \<open>The reducer and the action creators\<close>

lemmas trace_defs =
  run_def dispatch_all_def load_calls_def load_failed_def clearFilters_def setSelectedDate_def

lemma run_load_failed:
  "run t0 s (loadDashboardData d (Rejected e)) =
     s\<lparr>error := Some (failure_message ''Failed to load dashboard data'' e), loading := False\<rparr>"
  "run t0 s (loadDashboardData d (Threw e)) =
     s\<lparr>error := Some (failure_message ''Failed to load dashboard data'' e), loading := False\<rparr>"
  by (simp_all add: trace_defs)

lemma run_load_fulfilled:
  "run t0 s (loadDashboardData d (Fulfilled (ms, k, st, ht))) =
     s\<lparr>machines := ms, filteredMachines := ms, kpiStats := Some k, statusTrends := st,
       hourlyTrends := ht, error := None, loading := False\<rparr>"
  by (simp add: trace_defs)

lemma run_search:
  "run t0 s (searchMachines lower c f (Fulfilled found)) =
     s\<lparr>searchFilters := mergeFilters (searchFilters s) f, filteredMachines := found,
       loading := False\<rparr>"
  "run t0 s (searchMachines lower c f (Rejected e)) =
     s\<lparr>searchFilters := mergeFilters (searchFilters s) f,
       filteredMachines := clientFilter lower f (machines c), loading := False\<rparr>"
  "run t0 s (searchMachines lower c f (Threw e)) =
     s\<lparr>searchFilters := mergeFilters (searchFilters s) f,
       filteredMachines := clientFilter lower f (machines c), loading := False\<rparr>"
  by (simp_all add: trace_defs)

lemma Promise_all4_rejects:
  assumes "out \<in> set (Promise_all4 r1 r2 r3 r4)"
    and "isl r1 \<or> isl r2 \<or> isl r3 \<or> isl r4"
  shows "\<exists>e \<in> set (rejection r1 @ rejection r2 @ rejection r3 @ rejection r4). out = Rejected e"
  using assms by (cases r1; cases r2; cases r3; cases r4) auto

text \<open>
  C10. For every snapshot and every payload \<open>p\<close> (\<open>None\<close> is \<open>null\<close>), the
  \<open>SET_ERROR\<close> transition of the reducer returns a snapshot with \<open>error = p\<close> and
  \<open>loading = false\<close> and every other field as before; so clearing the error also
  forces \<open>loading\<close> to false, whatever it was.
\<close>

theorem SET_ERROR_sets_error_and_stops_loading:
  "error (dashboardReducer t0 s (SET_ERROR p)) = p \<and>
   loading (dashboardReducer t0 s (SET_ERROR p)) = False \<and>
   dashboardReducer t0 s (SET_ERROR p) = s\<lparr>error := p, loading := False\<rparr> \<and>
   loading (dashboardReducer t0 (s\<lparr>loading := True\<rparr>) (SET_ERROR None)) = False"
  by simp

theorem SET_ERROR_sets_error_and_stops_loading_witness:
  "error (dashboardReducer 0 busy (SET_ERROR None)) = None \<and>
   loading (dashboardReducer 0 busy (SET_ERROR None)) = False \<and>
   machines (dashboardReducer 0 busy (SET_ERROR None)) = [fan, pump] \<and>
   filteredMachines (dashboardReducer 0 busy (SET_ERROR None)) = [pump]"
  using SET_ERROR_sets_error_and_stops_loading [of 0 busy None]
  by (simp add: busy_def)

text \<open>
  C5. For every prior filter state and machines array, \<open>clearFilters\<close> resets the five
  criteria fields to the empty string and sets \<open>filteredMachines\<close> to \<open>machines\<close>
  exactly, whatever the snapshot was; it issues no gateway call.
\<close>

theorem clearFilters_resets:
  "calls clearFilters = [] \<and>
   searchFilters (run t0 s clearFilters) =
     \<lparr>sf_customer = '''', sf_area = '''', sf_subarea = '''', sf_machineName = '''',
      sf_status = ''''\<rparr> \<and>
   filteredMachines (run t0 s clearFilters) = machines s \<and>
   machines (run t0 s clearFilters) = machines s"
  by (simp add: trace_defs initialSearchFilters_def)

theorem clearFilters_resets_witness:
  "calls clearFilters = [] \<and>
   sf_machineName (searchFilters busy) = ''pump'' \<and>
   sf_machineName (searchFilters (run 0 busy clearFilters)) = '''' \<and>
   filteredMachines busy = [pump] \<and>
   filteredMachines (run 0 busy clearFilters) = [fan, pump]"
  using clearFilters_resets [of 0 busy]
  by (simp add: busy_def initialSearchFilters_def)

text \<open>
  C1. For every date-range load in which one of the four parallel gateway calls
  (machines, KPIs, status trends, hourly trends) fails, the data fields \<open>machines\<close>,
  \<open>filteredMachines\<close>, \<open>kpiStats\<close>, \<open>statusTrends\<close> and \<open>hourlyTrends\<close> of the
  snapshot keep the values they had before the load, \<open>error\<close> is a message, not
  \<open>null\<close>: the message of the failure observed when that is an \<open>Error\<close>, and the text
  \<open>Failed to load dashboard data\<close> otherwise; and \<open>loading\<close> ends as false.
\<close>

theorem loadDashboardData_failure_keeps_data:
  assumes "out \<in> set (Promise_all4 r1 r2 r3 r4)"
    and "isl r1 \<or> isl r2 \<or> isl r3 \<or> isl r4"
  shows "machines (run t0 s (loadDashboardData d out)) = machines s \<and>
         filteredMachines (run t0 s (loadDashboardData d out)) = filteredMachines s \<and>
         kpiStats (run t0 s (loadDashboardData d out)) = kpiStats s \<and>
         statusTrends (run t0 s (loadDashboardData d out)) = statusTrends s \<and>
         hourlyTrends (run t0 s (loadDashboardData d out)) = hourlyTrends s \<and>
         error (run t0 s (loadDashboardData d out)) \<noteq> None \<and>
         (\<exists>e \<in> set (rejection r1 @ rejection r2 @ rejection r3 @ rejection r4).
            out = Rejected e \<and>
            error (run t0 s (loadDashboardData d out)) =
              (case e of
                 ErrorObj message \<Rightarrow> Some message
               | NonError \<Rightarrow> Some ''Failed to load dashboard data'')) \<and>
         loading (run t0 s (loadDashboardData d out)) = False"
proof -
  from assms obtain e
    where e: "e \<in> set (rejection r1 @ rejection r2 @ rejection r3 @ rejection r4)"
      and out: "out = Rejected e"
    using Promise_all4_rejects by blast
  have after: "run t0 s (loadDashboardData d out) =
          s\<lparr>error := Some (failure_message ''Failed to load dashboard data'' e),
            loading := False\<rparr>"
    unfolding out by (rule run_load_failed)
  have err: "error (run t0 s (loadDashboardData d out)) =
          (case e of
             ErrorObj message \<Rightarrow> Some message
           | NonError \<Rightarrow> Some ''Failed to load dashboard data'')"
    unfolding after by (cases e) simp_all
  have nonnull: "error (run t0 s (loadDashboardData d out)) \<noteq> None"
    unfolding err by (cases e) simp_all
  have kept: "machines (run t0 s (loadDashboardData d out)) = machines s \<and>
         filteredMachines (run t0 s (loadDashboardData d out)) = filteredMachines s \<and>
         kpiStats (run t0 s (loadDashboardData d out)) = kpiStats s \<and>
         statusTrends (run t0 s (loadDashboardData d out)) = statusTrends s \<and>
         hourlyTrends (run t0 s (loadDashboardData d out)) = hourlyTrends s \<and>
         loading (run t0 s (loadDashboardData d out)) = False"
    unfolding after by simp
  from e out err
  have "\<exists>e \<in> set (rejection r1 @ rejection r2 @ rejection r3 @ rejection r4).
            out = Rejected e \<and>
            error (run t0 s (loadDashboardData d out)) =
              (case e of
                 ErrorObj message \<Rightarrow> Some message
               | NonError \<Rightarrow> Some ''Failed to load dashboard data'')"
    by blast
  with kept nonnull show ?thesis
    by blast
qed

theorem loadDashboardData_failure_keeps_data_witness:
  "Rejected (ErrorObj ''timeout of 10000ms exceeded'')
     \<in> set (Promise_all4 (Inr [fan]) (Inl (ErrorObj ''timeout of 10000ms exceeded''))
               (Inr []) (Inr [])) \<and>
   machines (run 0 busy (loadDashboardData 7 (Rejected (ErrorObj ''timeout of 10000ms exceeded''))))
     = [fan, pump] \<and>
   filteredMachines
     (run 0 busy (loadDashboardData 7 (Rejected (ErrorObj ''timeout of 10000ms exceeded''))))
     = [pump] \<and>
   error (run 0 busy (loadDashboardData 7 (Rejected (ErrorObj ''timeout of 10000ms exceeded''))))
     = Some ''timeout of 10000ms exceeded'' \<and>
   loading (run 0 busy (loadDashboardData 7 (Rejected (ErrorObj ''timeout of 10000ms exceeded''))))
     = False \<and>
   Rejected NonError \<in> set (Promise_all4 (Inr [fan]) (Inr no_kpis) (Inl NonError) (Inr [])) \<and>
   error (run 0 busy (loadDashboardData 7 (Rejected NonError)))
     = Some ''Failed to load dashboard data'' \<and>
   machines (run 0 busy (loadDashboardData 7 (Rejected NonError))) = [fan, pump]"
proof -
  have mem: "Rejected (ErrorObj ''timeout of 10000ms exceeded'')
     \<in> set (Promise_all4 (Inr [fan]) (Inl (ErrorObj ''timeout of 10000ms exceeded''))
               (Inr []) (Inr []))"
    by simp
  have failed: "isl (Inr [fan] :: thrown + Machine list) \<or>
      isl (Inl (ErrorObj ''timeout of 10000ms exceeded'') :: thrown + KPIStats) \<or>
      isl (Inr [] :: thrown + StatusTrend list) \<or> isl (Inr [] :: thrown + HourlyTrend list)"
    by simp
  have mem': "Rejected NonError
     \<in> set (Promise_all4 (Inr [fan]) (Inr no_kpis) (Inl NonError) (Inr []))"
    by simp
  have failed': "isl (Inr [fan] :: thrown + Machine list) \<or>
      isl (Inr no_kpis :: thrown + KPIStats) \<or>
      isl (Inl NonError :: thrown + StatusTrend list) \<or> isl (Inr [] :: thrown + HourlyTrend list)"
    by simp
  have first: "error (run 0 busy (loadDashboardData 7 (Rejected (ErrorObj ''timeout of 10000ms exceeded''))))
     = Some ''timeout of 10000ms exceeded''"
    using loadDashboardData_failure_keeps_data [OF mem failed, of 0 busy 7] by simp
  have second: "error (run 0 busy (loadDashboardData 7 (Rejected NonError)))
     = Some ''Failed to load dashboard data''"
    using loadDashboardData_failure_keeps_data [OF mem' failed', of 0 busy 7] by simp
  show ?thesis
    using mem mem' first second
      loadDashboardData_failure_keeps_data [OF mem failed, of 0 busy 7]
      loadDashboardData_failure_keeps_data [OF mem' failed', of 0 busy 7]
    by (simp add: busy_def)
qed

text \<open>
  C2. The claim: in every fetch or search cycle \<open>loading\<close> is true from the moment the
  cycle begins until its success or failure is recorded. In \<open>loadDashboardData\<close> the
  dispatch of \<open>SET_LOADING true\<close> is followed at once by \<open>SET_ERROR null\<close>, which
  sets \<open>loading\<close> back to false: the four gateway calls are issued, and stay pending,
  in a snapshot whose \<open>loading\<close> is false. Evaluated from the initial snapshot, for a
  load whose calls are rejected.
\<close>

theorem loadDashboardData_not_loading_while_pending:
  "map_option loading
     (state_at_call 0 (initialState 0)
        (loadDashboardData 0 (Rejected (ErrorObj ''Network Error'')))) = Some False"
  by (simp add: load_calls_def)

lemma load_pending_loading:
  "map_option loading (state_at_call t0 s (loadDashboardData d (Rejected e))) = Some False"
  "map_option loading (state_at_call t0 s (loadDashboardData d (Fulfilled (ms, k, st, ht)))) =
     Some False"
  by (simp_all add: load_calls_def)

lemma search_pending_loading:
  "map_option loading (state_at_call t0 s (searchMachines lower c f (Rejected e))) = Some True"
  "map_option loading (state_at_call t0 s (searchMachines lower c f (Fulfilled found))) = Some True"
  by simp_all

lemma cycle_ends_not_loading:
  "loading (run t0 s (loadDashboardData d out)) = False"
  "loading (run t0 s (searchMachines lower c f sout)) = False"
proof -
  show "loading (run t0 s (loadDashboardData d out)) = False"
  proof (cases out)
    case (Fulfilled p)
    then show ?thesis by (cases p) (simp add: trace_defs)
  qed (simp_all add: trace_defs)
  show "loading (run t0 s (searchMachines lower c f sout)) = False"
    by (cases sout) (simp_all add: trace_defs)
qed

text \<open>
  C6. For every \<open>searchMachines\<close> call whose server-side search fails, the \<open>error\<close>
  field of the snapshot stays as it was, \<open>filteredMachines\<close> is the result of the
  client-side fallback filter over the machines of the snapshot the call closed over,
  and \<open>loading\<close> ends as false.
\<close>

theorem searchMachines_failure_falls_back:
  "error (run t0 s (searchMachines toLowerCase closure filters (Rejected e))) = error s \<and>
   filteredMachines (run t0 s (searchMachines toLowerCase closure filters (Rejected e))) =
     clientFilter toLowerCase filters (machines closure) \<and>
   loading (run t0 s (searchMachines toLowerCase closure filters (Rejected e))) = False \<and>
   machines (run t0 s (searchMachines toLowerCase closure filters (Rejected e))) = machines s"
  by (simp add: trace_defs)

theorem searchMachines_failure_falls_back_witness:
  "error (run 0 busy (searchMachines ascii_toLowerCase busy (by_name ''FAN'') (Rejected NonError)))
     = Some ''stale'' \<and>
   filteredMachines
     (run 0 busy (searchMachines ascii_toLowerCase busy (by_name ''FAN'') (Rejected NonError)))
     = [fan] \<and>
   loading (run 0 busy (searchMachines ascii_toLowerCase busy (by_name ''FAN'') (Rejected NonError)))
     = False"
proof -
  have "clientFilter ascii_toLowerCase (by_name ''FAN'') [fan, pump] = [fan]"
    by code_simp
  then show ?thesis
    using searchMachines_failure_falls_back
      [of 0 busy ascii_toLowerCase busy "by_name ''FAN''" NonError]
    by (simp add: busy_def)
qed

section \<open>The filtered machines and the last full fetch\<close>

lemma ids_clientFilter: "ids (clientFilter lower f ms) \<subseteq> ids ms"
  by (auto simp: ids_def clientFilter_def)

lemma begin_within:
  assumes "filtered_within (snapshot c)"
  shows "filtered_within (snapshot (do_step lower t0 c (Begin ev)))"
proof (cases ev)
  case (LoadDashboardData d out)
  show ?thesis
  proof (cases out)
    case (Fulfilled p)
    with assms LoadDashboardData show ?thesis
      by (cases p) (simp add: filtered_within_def trace_defs)
  qed (use assms LoadDashboardData in \<open>simp_all add: filtered_within_def trace_defs\<close>)
next
  case (SearchMachines f out)
  with assms show ?thesis
    using ids_clientFilter [of lower f "machines (snapshot c)"]
    by (cases out) (simp_all add: filtered_within_def trace_defs)
next
  case ClearFilters
  then show ?thesis
    by (simp add: filtered_within_def trace_defs)
next
  case (SetSelectedDate d out)
  show ?thesis
  proof (cases out)
    case (Fulfilled p)
    with assms SetSelectedDate show ?thesis
      by (cases p) (simp add: filtered_within_def trace_defs)
  qed (use assms SetSelectedDate in \<open>simp_all add: filtered_within_def trace_defs\<close>)
qed

lemma continuation_within:
  assumes "filtered_within s" and "stores_within s (closure, ev)"
  shows "filtered_within (run t0 s (after_await (trace_of lower closure ev)))"
proof (cases ev)
  case (LoadDashboardData d out)
  show ?thesis
  proof (cases out)
    case (Fulfilled p)
    with assms LoadDashboardData show ?thesis
      by (cases p) (simp add: filtered_within_def trace_defs)
  qed (use assms LoadDashboardData in \<open>simp_all add: filtered_within_def trace_defs\<close>)
next
  case (SearchMachines f out)
  show ?thesis
  proof (cases out)
    case (Rejected e)
    have "ids (clientFilter lower f (machines closure)) \<subseteq> ids (machines s)"
      using ids_clientFilter [of lower f "machines closure"] assms(2)
      unfolding SearchMachines Rejected by simp
    with SearchMachines Rejected show ?thesis
      by (simp add: filtered_within_def trace_defs)
  qed (use assms SearchMachines in \<open>simp_all add: filtered_within_def trace_defs\<close>)
next
  case ClearFilters
  with assms(1) show ?thesis
    by (simp add: filtered_within_def trace_defs)
next
  case (SetSelectedDate d out)
  show ?thesis
  proof (cases out)
    case (Fulfilled p)
    with assms SetSelectedDate show ?thesis
      by (cases p) (simp add: filtered_within_def trace_defs)
  qed (use assms SetSelectedDate in \<open>simp_all add: filtered_within_def trace_defs\<close>)
qed

lemma do_step_within:
  assumes "filtered_within (snapshot c)" and "step_within c st"
  shows "filtered_within (snapshot (do_step lower t0 c st))"
proof (cases st)
  case (Begin ev)
  with assms(1) show ?thesis
    using begin_within by simp
next
  case (Settle i)
  show ?thesis
  proof (cases "i < length (in_flight c)")
    case True
    with assms(2) Settle
    have "stores_within (snapshot c) (fst (in_flight c ! i), snd (in_flight c ! i))"
      by simp
    from continuation_within [OF assms(1) this] True Settle show ?thesis
      by simp
  next
    case False
    with assms(1) Settle show ?thesis
      by simp
  qed
qed

lemma foldl_do_step_within:
  "filtered_within (snapshot c) \<Longrightarrow> settles_within lower t0 c steps \<Longrightarrow>
   filtered_within (snapshot (foldl (do_step lower t0) c steps))"
proof (induction steps arbitrary: c)
  case Nil
  then show ?case by simp
next
  case (Cons st steps)
  from Cons.prems have "filtered_within (snapshot (do_step lower t0 c st))"
    using do_step_within by simp
  with Cons show ?case
    by simp
qed

text \<open>
  C3, as claimed: in every snapshot reachable through the exposed actions,
  \<open>filteredMachines\<close> is a subset of \<open>machines\<close> by \<open>_id\<close>. It fails: after a load
  that failed (no machines fetched), a server-side search that succeeds puts the
  record it returns into \<open>filteredMachines\<close>, and \<open>machines\<close> is still empty.
\<close>

theorem filtered_subset_counterexample:
  "\<not> filtered_within
       (snapshot
          (reached ascii_toLowerCase 0
             [Begin (LoadDashboardData 0 (Rejected NonError)), Settle 0,
              Begin (SearchMachines (by_name ''pump'') (Fulfilled [pump])), Settle 0]))"
  by code_simp

text \<open>
  It fails as well without any answer of the server, when requests overlap: a search is
  called while the machines are \<open>fan\<close> and \<open>pump\<close>, the month is changed and the new
  fetch brings \<open>fan\<close> only, and then the search is rejected; its fallback filters the
  machines it was called with and stores \<open>pump\<close>.
\<close>

lemma filtered_subset_overlap_example:
  "machines
     (snapshot
        (reached ascii_toLowerCase 0
           [Begin (LoadDashboardData 0 (Fulfilled ([fan, pump], no_kpis, [], []))), Settle 0,
            Begin (SearchMachines (by_name ''pump'') (Rejected NonError)),
            Begin (SetSelectedDate 1 (Fulfilled ([fan], no_kpis, [], []))), Settle 1,
            Settle 0])) = [fan] \<and>
   filteredMachines
     (snapshot
        (reached ascii_toLowerCase 0
           [Begin (LoadDashboardData 0 (Fulfilled ([fan, pump], no_kpis, [], []))), Settle 0,
            Begin (SearchMachines (by_name ''pump'') (Rejected NonError)),
            Begin (SetSelectedDate 1 (Fulfilled ([fan], no_kpis, [], []))), Settle 1,
            Settle 0])) = [pump]"
  by code_simp

text \<open>
  C3, amended: in every snapshot reachable through the exposed actions
  (\<open>loadDashboardData\<close>, \<open>searchMachines\<close>, \<open>clearFilters\<close>, \<open>setSelectedDate\<close>),
  their requests overlapping and settling in any order, \<open>filteredMachines\<close> is a
  subset of \<open>machines\<close> by \<open>_id\<close>, provided that every server-side search that
  succeeded returned only records whose \<open>_id\<close> occurs in the machines array at the
  time its result is stored, and that, whenever a search was rejected and fell back to
  the client-side filter, every machine of the array the search was called with still
  occurred, by \<open>_id\<close>, in the machines array at that time.
\<close>

theorem filtered_subset_of_machines:
  assumes "settles_within toLowerCase t0 (mounted t0) steps"
  shows "filtered_within (snapshot (reached toLowerCase t0 steps))"
  unfolding reached_def using _ assms
  by (rule foldl_do_step_within) (simp add: filtered_within_def initialState_def mounted_def)

theorem filtered_subset_of_machines_witness:
  "settles_within ascii_toLowerCase 0 (mounted 0)
     [Begin (SetSelectedDate 3 (Fulfilled ([fan, pump], no_kpis, [], []))), Settle 0,
      Begin (SearchMachines (by_name ''pump'') (Fulfilled [pump])),
      Begin (SearchMachines (by_name ''fan'') (Rejected NonError)),
      Begin (LoadDashboardData 3 (Rejected NonError)),
      Settle 1, Settle 0, Settle 0, Begin ClearFilters] \<and>
   filtered_within
     (snapshot
        (reached ascii_toLowerCase 0
           [Begin (SetSelectedDate 3 (Fulfilled ([fan, pump], no_kpis, [], []))), Settle 0,
            Begin (SearchMachines (by_name ''pump'') (Fulfilled [pump])),
            Begin (SearchMachines (by_name ''fan'') (Rejected NonError)),
            Begin (LoadDashboardData 3 (Rejected NonError)),
            Settle 1, Settle 0, Settle 0, Begin ClearFilters]))"
proof -
  have ok: "settles_within ascii_toLowerCase 0 (mounted 0)
     [Begin (SetSelectedDate 3 (Fulfilled ([fan, pump], no_kpis, [], []))), Settle 0,
      Begin (SearchMachines (by_name ''pump'') (Fulfilled [pump])),
      Begin (SearchMachines (by_name ''fan'') (Rejected NonError)),
      Begin (LoadDashboardData 3 (Rejected NonError)),
      Settle 1, Settle 0, Settle 0, Begin ClearFilters]"
    by code_simp
  show ?thesis
    by (rule conjI) (rule ok, rule filtered_subset_of_machines [OF ok])
qed

section \<open>The client-side fallback filter\<close>

lemma str_includes_sublist: "str_includes hay needle \<longleftrightarrow> sublist needle hay"
  by (induction hay) (simp_all add: sublist_Cons_right)

lemma str_includes_ci: "str_includes (lower s) (lower q) \<longleftrightarrow> ci_substring lower q s"
  by (simp add: str_includes_sublist sublist_def ci_substring_def)

lemma matchesField_spec: "matchesField f x \<longleftrightarrow> (\<forall>v. f = Some v \<and> v \<noteq> [] \<longrightarrow> x = v)"
  by (cases f) (auto simp: matchesField_def)

lemma matchesSearch_spec:
  "matchesSearch lower filters machine \<longleftrightarrow>
     (\<forall>q. pf_machineName filters = Some q \<and> q \<noteq> [] \<longrightarrow>
          ci_substring lower q (machineName machine) \<or> ci_substring lower q (m_id machine))"
  by (cases "pf_machineName filters") (auto simp: matchesSearch_def str_includes_ci)

lemma matchesAll_spec: "matchesAll lower filters machine = spec_matches lower filters machine"
  unfolding matchesAll_def spec_matches_def matchesField_spec matchesSearch_spec ..

text \<open>
  Where \<open>toLowerCase\<close> folds a string character by character, as it does on ASCII, the
  match is that some contiguous part of the text equals the query up to case.
\<close>

lemma ci_substring_charwise:
  "ci_substring (map fold_char) q s \<longleftrightarrow>
     (\<exists>pre mid post. s = pre @ mid @ post \<and> map fold_char mid = map fold_char q)"
proof
  assume "ci_substring (map fold_char) q s"
  then obtain ps ss where "map fold_char s = ps @ map fold_char q @ ss"
    by (auto simp: ci_substring_def)
  then obtain pre rest where s: "s = pre @ rest"
    and rest: "map fold_char rest = map fold_char q @ ss"
    by (metis map_eq_append_conv)
  from rest obtain mid post where "rest = mid @ post"
    and "map fold_char mid = map fold_char q"
    by (metis map_eq_append_conv)
  with s show "\<exists>pre mid post. s = pre @ mid @ post \<and> map fold_char mid = map fold_char q"
    by blast
next
  assume "\<exists>pre mid post. s = pre @ mid @ post \<and> map fold_char mid = map fold_char q"
  then obtain pre mid post where "s = pre @ mid @ post"
    and "map fold_char mid = map fold_char q"
    by blast
  then have "map fold_char s = map fold_char pre @ map fold_char q @ map fold_char post"
    by simp
  then show "ci_substring (map fold_char) q s"
    unfolding ci_substring_def by blast
qed

text \<open>
  C4. For every machines array and every criteria record, the client-side fallback
  filter returns exactly the records in which every constrained (present and non-empty)
  field matches: \<open>machineName\<close> by case-insensitive substring match against the display
  name or the \<open>_id\<close> of the machine, \<open>customer\<close>, \<open>area\<close>, \<open>subarea\<close> and \<open>status\<close>
  by equality, an empty or absent field matching every record; and the result keeps the
  records in the order they have in \<open>machines\<close>. This holds whatever
  \<open>String.prototype.toLowerCase\<close> computes.
\<close>

theorem clientFilter_meets_spec:
  "clientFilter toLowerCase filters ms = filter (spec_matches toLowerCase filters) ms \<and>
   (\<forall>m. m \<in> set (clientFilter toLowerCase filters ms) \<longleftrightarrow>
      m \<in> set ms \<and> spec_matches toLowerCase filters m) \<and>
   subseq (clientFilter toLowerCase filters ms) ms"
  by (simp add: clientFilter_def matchesAll_spec [abs_def])

theorem clientFilter_meets_spec_witness:
  "clientFilter ascii_toLowerCase (by_name ''pump'') [fan, pump] = [pump] \<and>
   filter (spec_matches ascii_toLowerCase (by_name ''pump'')) [fan, pump] = [pump] \<and>
   spec_matches ascii_toLowerCase (by_name ''pump'') pump \<and>
   \<not> spec_matches ascii_toLowerCase (by_name ''pump'') fan"
proof -
  have "clientFilter ascii_toLowerCase (by_name ''pump'') [fan, pump] = [pump]"
    by code_simp
  moreover have "fan \<noteq> pump"
    by (simp add: fan_def pump_def)
  ultimately show ?thesis
    using clientFilter_meets_spec [of ascii_toLowerCase "by_name ''pump''" "[fan, pump]"]
    by (auto split: if_splits)
qed

section \<open>The debounce\<close>

text \<open>
  C7. The claim: for every sequence of filter edits each of which comes within 300 ms
  of the one before, exactly one search call is triggered once 300 ms have passed
  without an edit, with the criteria of the last edit. Evaluated for three edits 100 ms
  apart that type \<open>p\<close>, \<open>pu\<close>, \<open>pum\<close>: the timer fires at 500 ms and calls
  \<open>searchMachines\<close>; the dispatches of that call make the provider render and build a
  new \<open>actions\<close> object, on which the effect depends, so the effect starts the timer
  again, and it fires again at 800 ms: two search calls with the same criteria by then,
  and one more every 300 ms after.
\<close>

theorem debounce_search_repeats:
  "debounced
     [Edit 0 ''p'' initialSearchFilters, Edit 100 ''pu'' initialSearchFilters,
      Edit 200 ''pum'' initialSearchFilters] 800 =
     [searchArg ''pum'' initialSearchFilters, searchArg ''pum'' initialSearchFilters] \<and>
   length
     (debounced
        [Edit 0 ''p'' initialSearchFilters, Edit 100 ''pu'' initialSearchFilters,
         Edit 200 ''pum'' initialSearchFilters] 2000) = 6"
  by code_simp

text \<open>
  Between 500 ms and 800 ms there is the one call that the claim describes; and when the
  last edit leaves the term and every filter empty, the callback makes no call at all.
\<close>

lemma debounce_first_call:
  "debounced
     [Edit 0 ''p'' initialSearchFilters, Edit 100 ''pu'' initialSearchFilters,
      Edit 200 ''pum'' initialSearchFilters] 499 = [] \<and>
   debounced
     [Edit 0 ''p'' initialSearchFilters, Edit 100 ''pu'' initialSearchFilters,
      Edit 200 ''pum'' initialSearchFilters] 500 = [searchArg ''pum'' initialSearchFilters]"
  by code_simp

lemma debounce_empty_criteria_no_search:
  "debounced [Edit 0 ''a'' initialSearchFilters, Edit 100 [] initialSearchFilters] 2000 = []"
  by code_simp

section \<open>The hourly chart\<close>

lemma hour_label_padded:
  assumes "0 \<le> h" and "h \<le> 23"
  shows "hour_label h = padded_hour h"
proof (cases "h < 10")
  case True
  with assms have "nat h div 10 = 0" "nat h mod 10 = nat h"
    by auto
  moreover have "digit_char 0 = CHR ''0''"
    by code_simp
  ultimately show ?thesis
    using True assms
    by (simp add: hour_label_def padded_hour_def Number_toString_def nat_digits.simps)
next
  case False
  with assms have "nat h div 10 < 10" "\<not> nat h < 10"
    by auto
  then show ?thesis
    using False assms
    by (simp add: hour_label_def padded_hour_def Number_toString_def
        nat_digits.simps [of "nat h"] nat_digits.simps [of "nat h div 10"])
qed

text \<open>
  C8. For every list of hourly trend points (hours from 0 to 23), the hourly chart lists
  the points sorted ascending by hour, each labelled with its hour as a zero-padded
  two-digit string followed by \<open>:00\<close>, and each count is passed through unchanged
  beside its hour; the empty list gives empty labels and no dataset.
\<close>

theorem hourlyChartData_sorted_padded:
  assumes "\<forall>t \<in> set trends. 0 \<le> hour t \<and> hour t \<le> 23"
  shows "hourlyChartData mode [] = \<lparr>labels = [], datasets = []\<rparr> \<and>
         hourlyChartData mode trends =
           (if trends = [] then \<lparr>labels = [], datasets = []\<rparr>
            else \<lparr>labels = map (\<lambda>t. padded_hour (hour t)) (sort_key hour trends),
                  datasets =
                    [\<lparr>ds_label =
                        (if mode = machines_mode then ''Machine Readings''
                         else ''Component Readings''),
                      ds_data = map count (sort_key hour trends)\<rparr>]\<rparr>) \<and>
         sorted (map hour (sort_key hour trends)) \<and>
         mset (sort_key hour trends) = mset trends"
proof -
  have "map (\<lambda>t. hour_label (hour t)) (sort_key hour trends) =
        map (\<lambda>t. padded_hour (hour t)) (sort_key hour trends)"
    using assms by (simp add: hour_label_padded)
  then show ?thesis
    by (simp add: hourlyChartData_def Let_def)
qed

theorem hourlyChartData_sorted_padded_witness:
  "hourlyChartData machines_mode [\<lparr>hour = 5, count = 3\<rparr>, \<lparr>hour = 2, count = 1\<rparr>] =
     \<lparr>labels = [''02:00'', ''05:00''],
      datasets = [\<lparr>ds_label = ''Machine Readings'', ds_data = [1, 3]\<rparr>]\<rparr> \<and>
   map (\<lambda>t. padded_hour (hour t))
     (sort_key hour [\<lparr>hour = 5, count = 3\<rparr>, \<lparr>hour = 2, count = 1\<rparr>]) = [''02:00'', ''05:00'']"
proof -
  have range: "\<forall>t \<in> set [\<lparr>hour = 5, count = 3\<rparr>, \<lparr>hour = 2, count = 1\<rparr>]. 0 \<le> hour t \<and> hour t \<le> 23"
    by simp
  have "map (\<lambda>t. padded_hour (hour t))
     (sort_key hour [\<lparr>hour = 5, count = 3\<rparr>, \<lparr>hour = 2, count = 1\<rparr>]) = [''02:00'', ''05:00'']"
    by code_simp
  then show ?thesis
    using hourlyChartData_sorted_padded [OF range, of machines_mode] by simp
qed

section \<open>The customer chart\<close>

lemma Set_of_foldl:
  "set (foldl (\<lambda>acc x. if x \<in> set acc then acc else acc @ [x]) acc xs) = set acc \<union> set xs"
  "distinct acc \<Longrightarrow>
   distinct (foldl (\<lambda>acc x. if x \<in> set acc then acc else acc @ [x]) acc xs)"
  by (induction xs arbitrary: acc) auto

lemma set_Set_of [simp]: "set (Set_of xs) = set xs"
  by (simp add: Set_of_def Set_of_foldl)

lemma distinct_Set_of [simp]: "distinct (Set_of xs)"
  by (simp add: Set_of_def Set_of_foldl)

lemma Set_of_foldl_distinct:
  "distinct (acc @ xs) \<Longrightarrow>
   foldl (\<lambda>acc x. if x \<in> set acc then acc else acc @ [x]) acc xs = acc @ xs"
  by (induction xs arbitrary: acc) auto

lemma Set_of_distinct: "distinct xs \<Longrightarrow> Set_of xs = xs"
  using Set_of_foldl_distinct [of "[]" xs] by (simp add: Set_of_def)

lemma insort_key_map:
  "insort_key g (f x) (map f ys) = map f (insort_key (\<lambda>y. g (f y)) x ys)"
  by (induction ys) auto

lemma sort_key_map: "sort_key g (map f xs) = map f (sort_key (\<lambda>y. g (f y)) xs)"
  by (induction xs) (simp_all add: insort_key_map)

lemma init_foldl:
  "foldl (\<lambda>cd c. cd(c \<mapsto> Map.empty)) cd0 cs c =
     (if c \<in> set cs then Some Map.empty else cd0 c)"
  by (induction cs arbitrary: cd0) auto

lemma init_customerData_inv: "customerData_inv ops cs [] (init_customerData cs)"
  by (auto simp: customerData_inv_def init_customerData_def init_foldl trends_of_def)

lemma visit_customers_effect:
  assumes "distinct (map snd ics)" and "\<forall>ic \<in> set ics. cd (snd ic) \<noteq> None"
  shows "\<exists>cd'. visit_customers ops n d tc cd ics = Some cd' \<and>
           (\<forall>c. c \<notin> snd ` set ics \<longrightarrow> cd' c = cd c) \<and>
           (\<forall>ic \<in> set ics. \<forall>inner. cd (snd ic) = Some inner \<longrightarrow>
              cd' (snd ic) =
                Some (inner(d \<mapsto> add_shares ops n (fst ic) tc
                                   (case inner d of None \<Rightarrow> zeroCounts | Some x \<Rightarrow> x))))"
  using assms
proof (induction ics arbitrary: cd)
  case Nil
  then show ?case by simp
next
  case (Cons ic ics)
  from Cons.prems obtain inner0 where inner0: "cd (snd ic) = Some inner0" by auto
  define cd1 where "cd1 = cd(snd ic \<mapsto> inner0(d \<mapsto> add_shares ops n (fst ic) tc
                                   (case inner0 d of None \<Rightarrow> zeroCounts | Some x \<Rightarrow> x)))"
  have v: "visit_customer ops n d tc cd ic = Some cd1"
    by (simp add: visit_customer_def inner0 cd1_def)
  have notin: "snd ic \<notin> snd ` set ics" using Cons.prems(1) by auto
  have defd: "\<forall>ic' \<in> set ics. cd1 (snd ic') \<noteq> None"
    using Cons.prems(2) by (auto simp: cd1_def)
  have dist: "distinct (map snd ics)"
    using Cons.prems(1) by simp
  from Cons.IH [OF dist defd]
  obtain cd' where cd': "visit_customers ops n d tc cd1 ics = Some cd'"
    and same: "\<forall>c. c \<notin> snd ` set ics \<longrightarrow> cd' c = cd1 c"
    and upd: "\<forall>ic' \<in> set ics. \<forall>inner. cd1 (snd ic') = Some inner \<longrightarrow>
              cd' (snd ic') =
                Some (inner(d \<mapsto> add_shares ops n (fst ic') tc
                                   (case inner d of None \<Rightarrow> zeroCounts | Some x \<Rightarrow> x)))"
    by blast
  have "visit_customers ops n d tc cd (ic # ics) = Some cd'"
    by (simp add: v cd')
  moreover have "\<forall>c. c \<notin> snd ` set (ic # ics) \<longrightarrow> cd' c = cd c"
    using same by (auto simp: cd1_def)
  moreover have "\<forall>ic' \<in> set (ic # ics). \<forall>inner. cd (snd ic') = Some inner \<longrightarrow>
              cd' (snd ic') =
                Some (inner(d \<mapsto> add_shares ops n (fst ic') tc
                                   (case inner d of None \<Rightarrow> zeroCounts | Some x \<Rightarrow> x)))"
  proof (intro ballI allI impI)
    fix ic' inner
    assume mem: "ic' \<in> set (ic # ics)" and inner: "cd (snd ic') = Some inner"
    show "cd' (snd ic') =
                Some (inner(d \<mapsto> add_shares ops n (fst ic') tc
                                   (case inner d of None \<Rightarrow> zeroCounts | Some x \<Rightarrow> x)))"
    proof (cases "ic' = ic")
      case True
      then have "cd' (snd ic') = cd1 (snd ic)" using same notin by simp
      then show ?thesis using True inner inner0 by (simp add: cd1_def)
    next
      case False
      with mem have in_ics: "ic' \<in> set ics" by simp
      then have "snd ic' \<noteq> snd ic" using notin by (metis imageI)
      then have "cd1 (snd ic') = Some inner" using inner by (simp add: cd1_def)
      with upd in_ics show ?thesis by blast
    qed
  qed
  ultimately show ?case by blast
qed

lemma shares_snoc:
  "shares ops n i (entries @ [(d, tc)]) d' =
     (if d' = d then add_shares ops n i tc (shares ops n i entries d) else shares ops n i entries d')"
  by (simp add: shares_def)

lemma shares_absent: "d \<notin> fst ` set entries \<Longrightarrow> shares ops n i entries d = zeroCounts"
proof -
  assume "d \<notin> fst ` set entries"
  then have "filter (\<lambda>e. fst e = d) entries = []"
    by (auto simp: filter_empty_conv)
  then show ?thesis by (simp add: shares_def)
qed

lemma trends_of_snoc:
  "(trends_of ops n i entries)(d \<mapsto> add_shares ops n i tc
       (case trends_of ops n i entries d of None \<Rightarrow> zeroCounts | Some x \<Rightarrow> x)) =
   trends_of ops n i (entries @ [(d, tc)])"
proof (rule ext)
  fix d'
  show "((trends_of ops n i entries)(d \<mapsto> add_shares ops n i tc
       (case trends_of ops n i entries d of None \<Rightarrow> zeroCounts | Some x \<Rightarrow> x))) d' =
   trends_of ops n i (entries @ [(d, tc)]) d'"
    by (auto simp: trends_of_def shares_snoc shares_absent)
qed

lemma visit_customers_inv:
  assumes "distinct cs" and "customerData_inv ops cs entries cd"
  shows "\<exists>cd'. visit_customers ops (length cs) d tc cd (enumerate 0 cs) = Some cd' \<and>
           customerData_inv ops cs (entries @ [(d, tc)]) cd'"
proof -
  have d: "distinct (map snd (enumerate 0 cs))" using assms(1) by simp
  have defd: "\<forall>ic \<in> set (enumerate 0 cs). cd (snd ic) \<noteq> None"
    using assms(2) by (auto simp: customerData_inv_def in_set_enumerate_eq)
  from visit_customers_effect [OF d defd, of ops "length cs" d tc]
  obtain cd' where cd': "visit_customers ops (length cs) d tc cd (enumerate 0 cs) = Some cd'"
    and upd: "\<forall>ic \<in> set (enumerate 0 cs). \<forall>inner. cd (snd ic) = Some inner \<longrightarrow>
              cd' (snd ic) =
                Some (inner(d \<mapsto> add_shares ops (length cs) (fst ic) tc
                                   (case inner d of None \<Rightarrow> zeroCounts | Some x \<Rightarrow> x)))"
    by blast
  have "customerData_inv ops cs (entries @ [(d, tc)]) cd'"
    unfolding customerData_inv_def
  proof (intro allI impI)
    fix i assume i: "i < length cs"
    then have mem: "(i, cs ! i) \<in> set (enumerate 0 cs)"
      by (simp add: in_set_enumerate_eq)
    have "cd (cs ! i) = Some (trends_of ops (length cs) i entries)"
      using assms(2) i by (simp add: customerData_inv_def)
    with upd mem have "cd' (cs ! i) =
        Some ((trends_of ops (length cs) i entries)(d \<mapsto> add_shares ops (length cs) i tc
           (case trends_of ops (length cs) i entries d of None \<Rightarrow> zeroCounts | Some x \<Rightarrow> x)))"
      by force
    then show "cd' (cs ! i) = Some (trends_of ops (length cs) i (entries @ [(d, tc)]))"
      by (simp only: trends_of_snoc)
  qed
  with cd' show ?thesis by blast
qed

lemma visit_trends_inv:
  assumes "distinct cs" and "customerData_inv ops cs pre cd"
  shows "\<exists>cd'. visit_trends ops (enumerate 0 cs) (length cs) cd rest = Some cd' \<and>
           customerData_inv ops cs (pre @ rest) cd'"
  using assms(2)
proof (induction rest arbitrary: pre cd)
  case Nil
  then show ?case by simp
next
  case (Cons e rest)
  from visit_customers_inv [OF assms(1) Cons.prems, of "fst e" "snd e"]
  obtain cd1 where cd1: "visit_customers ops (length cs) (fst e) (snd e) cd (enumerate 0 cs) = Some cd1"
    and inv1: "customerData_inv ops cs (pre @ [e]) cd1"
    by auto
  from Cons.IH [OF inv1] obtain cd' where
    "visit_trends ops (enumerate 0 cs) (length cs) cd1 rest = Some cd'"
    "customerData_inv ops cs ((pre @ [e]) @ rest) cd'"
    by blast
  then show ?case by (simp add: cd1)
qed


lemma total_add_shares:
  "total (add_shares ops n i c acc) = total acc + spec_customer_value ops n i c"
  by (simp add: total_def add_shares_def spec_customer_value_def share_def)

lemma total_foldl_add_shares:
  "total (foldl (\<lambda>acc c. add_shares ops n i c acc) z cs) =
     total z + sum_list (map (spec_customer_value ops n i) cs)"
  by (induction cs arbitrary: z) (simp_all add: total_add_shares)

lemma total_shares:
  "total (shares ops n i entries d) =
     sum_list (map (spec_customer_value ops n i) (map snd (filter (\<lambda>e. fst e = d) entries)))"
proof -
  have "total zeroCounts = 0"
    by (simp add: total_def zeroCounts_def)
  then show ?thesis
    by (simp add: shares_def total_foldl_add_shares)
qed

lemma filter_label_distinct:
  "distinct (map fst entries) \<Longrightarrow> e \<in> set entries \<Longrightarrow>
   filter (\<lambda>e'. fst e' = fst e) entries = [e]"
proof (induction entries)
  case Nil
  then show ?case by simp
next
  case (Cons a entries)
  show ?case
  proof (cases "e = a")
    case True
    have "fst a \<notin> fst ` set entries"
      using Cons.prems(1) by simp
    then have "filter (\<lambda>e'. fst e' = fst a) entries = []"
      by (auto simp: filter_empty_conv image_iff)
    with True show ?thesis by simp
  next
    case False
    with Cons.prems have "e \<in> set entries" "fst a \<noteq> fst e" by force+
    with Cons show ?thesis by simp
  qed
qed

lemma total_shares_distinct:
  "distinct (map fst entries) \<Longrightarrow> e \<in> set entries \<Longrightarrow>
   total (shares ops n i entries (fst e)) = spec_customer_value ops n i (snd e)"
  by (simp add: total_shares filter_label_distinct)

lemma all_defined_map:
  "(\<forall>x \<in> set xs. f x = Some (g x)) \<Longrightarrow> all_defined (map f xs) = Some (map g xs)"
  by (induction xs) simp_all

lemma format_trends_total:
  "(\<forall>t \<in> set trends. date_label (date t) = Inr (lab (date t))) \<Longrightarrow>
   format_trends date_label trends = Inr (map (\<lambda>t. (lab (date t), status_counts t)) trends)"
  by (induction trends) simp_all

lemma customer_dataset_inv:
  assumes "customerData_inv ops cs entries cd" and "ic \<in> set (enumerate 0 cs)"
    and "set allDates \<subseteq> fst ` set entries"
  shows "customer_dataset cd allDates ic =
           Some \<lparr>ds_label = snd ic,
                 ds_data = map (\<lambda>d. total (shares ops (length cs) (fst ic) entries d)) allDates\<rparr>"
proof -
  from assms(2) have i: "fst ic < length cs" and c: "snd ic = cs ! fst ic"
    by (auto simp: in_set_enumerate_eq)
  with assms(1) have "cd (snd ic) = Some (trends_of ops (length cs) (fst ic) entries)"
    by (simp add: customerData_inv_def)
  moreover have "map (\<lambda>d. case trends_of ops (length cs) (fst ic) entries d of
                           None \<Rightarrow> 0 | Some trend \<Rightarrow> total trend) allDates =
                 map (\<lambda>d. total (shares ops (length cs) (fst ic) entries d)) allDates"
    using assms(3) by (auto simp: trends_of_def)
  ultimately show ?thesis by (simp add: customer_dataset_def)
qed

lemma customerChartData_general:
  assumes "trends \<noteq> []" and "format_trends date_label trends = Inr entries"
  shows "customerChartData ops date_label label_time ms trends =
     Inr \<lparr>labels = sort_key label_time (Set_of (map fst entries)),
          datasets =
            map (\<lambda>ic. \<lparr>ds_label = snd ic,
                        ds_data =
                          map (\<lambda>d. total (shares ops (length (Set_of (map customer ms))) (fst ic) entries d))
                            (sort_key label_time (Set_of (map fst entries)))\<rparr>)
              (enumerate 0 (Set_of (map customer ms)))\<rparr>"
proof -
  define cs where "cs = Set_of (map customer ms)"
  define allDates where "allDates = sort_key label_time (Set_of (map fst entries))"
  have dist: "distinct cs" by (simp add: cs_def)
  from visit_trends_inv [OF dist init_customerData_inv, of ops entries]
  obtain cd where cd: "visit_trends ops (enumerate 0 cs) (length cs) (init_customerData cs) entries = Some cd"
    and inv: "customerData_inv ops cs entries cd"
    by auto
  have sub: "set allDates \<subseteq> fst ` set entries"
    by (simp add: allDates_def)
  have ds: "all_defined (map (customer_dataset cd allDates) (enumerate 0 cs)) =
        Some (map (\<lambda>ic. \<lparr>ds_label = snd ic,
                 ds_data = map (\<lambda>d. total (shares ops (length cs) (fst ic) entries d)) allDates\<rparr>)
               (enumerate 0 cs))"
    by (rule all_defined_map) (simp add: customer_dataset_inv [OF inv _ sub])
  show ?thesis
    using assms cd ds
    by (simp add: customerChartData_def Let_def cs_def [symmetric] allDates_def [symmetric])
qed

lemma total_shares_trends:
  "total (shares ops n i (map (\<lambda>t. (lab (date t), status_counts t)) trends) d) =
     (\<Sum>t\<leftarrow>filter (\<lambda>t. lab (date t) = d) trends. spec_customer_value ops n i (status_counts t))"
  by (simp add: total_shares filter_map comp_def)

text \<open>
  C9. For every non-empty status-trend series and every machines array with \<open>N\<close>
  distinct customers, the customer chart has one series per distinct customer, in the
  order of first occurrence, and the value of the customer with 0-based index \<open>i\<close> for
  a date is the sum over the four statuses of \<open>round((count / N) * (i + 1))\<close>, the
  counts being those of the trend entry of that date (of each of them, added up, should
  several entries have the label of that date). The trend dates are dates that format:
  \<open>lab\<close> gives the label of each.
\<close>

theorem customerChartData_shares:
  assumes "trends \<noteq> []"
    and "\<forall>t \<in> set trends. date_label (date t) = Inr (lab (date t))"
  shows "customerChartData ops date_label label_time ms trends =
           Inr \<lparr>labels = sort_key label_time (Set_of (map (\<lambda>t. lab (date t)) trends)),
                datasets =
                  map (\<lambda>ic. \<lparr>ds_label = snd ic,
                              ds_data =
                                map (\<lambda>d. \<Sum>t\<leftarrow>filter (\<lambda>t. lab (date t) = d) trends.
                                            spec_customer_value ops
                                              (length (Set_of (map customer ms))) (fst ic)
                                              (status_counts t))
                                  (sort_key label_time
                                     (Set_of (map (\<lambda>t. lab (date t)) trends)))\<rparr>)
                    (enumerate 0 (Set_of (map customer ms)))\<rparr> \<and>
         distinct (Set_of (map customer ms)) \<and>
         set (Set_of (map customer ms)) = customer ` set ms"
proof -
  define entries where "entries = map (\<lambda>t. (lab (date t), status_counts t)) trends"
  have fmt: "format_trends date_label trends = Inr entries"
    unfolding entries_def using assms(2) by (rule format_trends_total)
  have fst_entries: "map fst entries = map (\<lambda>t. lab (date t)) trends"
    by (simp add: entries_def comp_def)
  have "customerChartData ops date_label label_time ms trends =
           Inr \<lparr>labels = sort_key label_time (Set_of (map (\<lambda>t. lab (date t)) trends)),
                datasets =
                  map (\<lambda>ic. \<lparr>ds_label = snd ic,
                              ds_data =
                                map (\<lambda>d. \<Sum>t\<leftarrow>filter (\<lambda>t. lab (date t) = d) trends.
                                            spec_customer_value ops
                                              (length (Set_of (map customer ms))) (fst ic)
                                              (status_counts t))
                                  (sort_key label_time
                                     (Set_of (map (\<lambda>t. lab (date t)) trends)))\<rparr>)
                    (enumerate 0 (Set_of (map customer ms)))\<rparr>"
    unfolding customerChartData_general [OF assms(1) fmt] fst_entries
    unfolding entries_def total_shares_trends ..
  then show ?thesis
    by simp
qed

theorem customerChartData_shares_witness:
  "customerChartData exact_ops format_january january_time [fan, pump, fan] [jan03, jan02] =
     Inr \<lparr>labels = [''Jan 02'', ''Jan 03''],
          datasets =
            [\<lparr>ds_label = ''Zeta'', ds_data = [2, 4]\<rparr>, \<lparr>ds_label = ''Acme'', ds_data = [3, 8]\<rparr>]\<rparr> \<and>
   Set_of (map customer [fan, pump, fan]) = [''Zeta'', ''Acme'']"
proof -
  have nonempty: "[jan03, jan02] \<noteq> []"
    by simp
  have formats: "\<forall>t \<in> set [jan03, jan02]. format_january (date t) = Inr (january_label (date t))"
    by (simp add: format_january_def jan03_def jan02_def)
  have customers: "Set_of (map customer [fan, pump, fan]) = [''Zeta'', ''Acme'']"
    by (simp add: Set_of_def fan_def pump_def)
  have dates:
    "sort_key january_time (Set_of (map (\<lambda>t. january_label (date t)) [jan03, jan02])) =
       [''Jan 02'', ''Jan 03'']"
    by code_simp
  have series:
    "map (\<lambda>ic. \<lparr>ds_label = snd ic,
                ds_data =
                  map (\<lambda>d. \<Sum>t\<leftarrow>filter (\<lambda>t. january_label (date t) = d) [jan03, jan02].
                              spec_customer_value exact_ops (length [''Zeta'', ''Acme''])
                                (fst ic) (status_counts t))
                    [''Jan 02'', ''Jan 03'']\<rparr>)
       (enumerate 0 [''Zeta'', ''Acme'']) =
     [\<lparr>ds_label = ''Zeta'', ds_data = [2, 4]\<rparr>, \<lparr>ds_label = ''Acme'', ds_data = [3, 8]\<rparr>]"
    by code_simp
  have chart:
    "customerChartData exact_ops format_january january_time [fan, pump, fan] [jan03, jan02] =
       Inr \<lparr>labels = [''Jan 02'', ''Jan 03''],
            datasets =
              [\<lparr>ds_label = ''Zeta'', ds_data = [2, 4]\<rparr>,
               \<lparr>ds_label = ''Acme'', ds_data = [3, 8]\<rparr>]\<rparr>"
    using customerChartData_shares [OF nonempty formats, of exact_ops january_time
        "[fan, pump, fan]", THEN conjunct1]
    by (simp only: customers dates series)
  show ?thesis
    by (rule conjI) (rule chart, rule customers)
qed

text \<open>
  With one entry per date, the labels being distinct, the chart lists the trends in the
  order of their sort key, and the value of a customer for a trend is the sum over the
  four statuses of the rounded share of the counts of that trend.
\<close>

lemma customerChartData_one_entry_per_date:
  assumes "trends \<noteq> []"
    and "\<forall>t \<in> set trends. date_label (date t) = Inr (lab (date t))"
    and "distinct (map (\<lambda>t. lab (date t)) trends)"
  shows "customerChartData ops date_label label_time ms trends =
           Inr \<lparr>labels =
                  map (\<lambda>t. lab (date t)) (sort_key (\<lambda>t. label_time (lab (date t))) trends),
                datasets =
                  map (\<lambda>ic. \<lparr>ds_label = snd ic,
                              ds_data =
                                map (\<lambda>t. spec_customer_value ops
                                            (length (Set_of (map customer ms))) (fst ic)
                                            (status_counts t))
                                  (sort_key (\<lambda>t. label_time (lab (date t))) trends)\<rparr>)
                    (enumerate 0 (Set_of (map customer ms)))\<rparr>"
proof -
  define entries where "entries = map (\<lambda>t. (lab (date t), status_counts t)) trends"
  define sorted_trends where "sorted_trends = sort_key (\<lambda>t. label_time (lab (date t))) trends"
  have fmt: "format_trends date_label trends = Inr entries"
    unfolding entries_def using assms(2) by (rule format_trends_total)
  have fst_entries: "map fst entries = map (\<lambda>t. lab (date t)) trends"
    by (simp add: entries_def comp_def)
  have dist: "distinct (map fst entries)"
    using assms(3) by (simp add: fst_entries)
  have dates: "sort_key label_time (Set_of (map fst entries)) =
               map (\<lambda>t. lab (date t)) sorted_trends"
    using assms(3) by (simp add: fst_entries Set_of_distinct sort_key_map sorted_trends_def)
  have val: "map (\<lambda>d. total (shares ops n i entries d)) (map (\<lambda>t. lab (date t)) sorted_trends) =
             map (\<lambda>t. spec_customer_value ops n i (status_counts t)) sorted_trends" for n i
  proof -
    have "total (shares ops n i entries (lab (date t))) =
          spec_customer_value ops n i (status_counts t)"
      if "t \<in> set trends" for t
    proof -
      from that have "(lab (date t), status_counts t) \<in> set entries"
        by (auto simp: entries_def)
      from total_shares_distinct [OF dist this, of ops n i] show ?thesis
        by simp
    qed
    then show ?thesis
      by (simp add: sorted_trends_def)
  qed
  show ?thesis
    unfolding customerChartData_general [OF assms(1) fmt] dates val sorted_trends_def [symmetric] ..
qed


end
